theory Spec2Isabelle
  imports Main "HOL-Library.Word" "HOL-Library.Char_ord" "HOL-Library.List_Lexorder"
begin

section \<open>The JSON library used by config.hpp\<close>

text \<open>
  Modelled from the spec: the header \<^verbatim>\<open>nlohmann_json/json.hpp\<close>, which \<^verbatim>\<open>config.hpp\<close>
  includes, is not among the sources. The specification treats the JSON library as an
  external capability (parse text to a tree, query and set fields by key, serialize a
  tree to text) and does not describe it further. This section models the six
  operations that \<^verbatim>\<open>config.hpp\<close> uses on the type \<^verbatim>\<open>nlohmann::json\<close>: default
  construction, construction from a braced list of values, \<^verbatim>\<open>parse\<close>, \<^verbatim>\<open>dump\<close>, \<^verbatim>\<open>find\<close> / \<^verbatim>\<open>operator[]\<close> on a key, and the
  conversions \<^verbatim>\<open>get<T>()\<close> and assignment from a \<^verbatim>\<open>T\<close>. What the specification leaves
  open is taken from the documented behaviour of the default specialisation that the
  source names: objects are a \<^verbatim>\<open>std::map\<close> from \<^verbatim>\<open>std::string\<close>, integers are 64 bit, and
  \<^verbatim>\<open>parse\<close>, called with its default arguments, reports malformed text by throwing.
  It is a model of the library and not a translation of program text.

  Floating point numbers are not interpreted: the type of \<^verbatim>\<open>double\<close> values is a type
  variable \<open>'f\<close>, and the four operations on it that the library needs are parameters,
  collected in a record of type \<open>'f float_ops\<close>. Binary values and the \<^verbatim>\<open>discarded\<close>
  value (which only callbacks and \<^verbatim>\<open>allow_exceptions = false\<close> produce) are left out.
\<close>

subsection \<open>Exceptions\<close>

text \<open>
  The exceptions that can leave the functions of \<^verbatim>\<open>config.hpp\<close>: three classes of the
  JSON library, and \<^verbatim>\<open>std::filesystem::filesystem_error\<close> and \<^verbatim>\<open>std::ios_base::failure\<close>
  of the standard library.
\<close>

datatype exception = parse_error | type_error | out_of_range | filesystem_error | ios_failure

subsection \<open>Values\<close>

record 'f float_ops =
  strtod :: "string \<Rightarrow> 'f"
  isfinite :: "'f \<Rightarrow> bool"
  float_to_chars :: "'f \<Rightarrow> string"
  float_to_integer :: "'f \<Rightarrow> int"

datatype 'f json =
    Null
  | Boolean bool
  | Number_integer "64 word"
  | Number_unsigned "64 word"
  | Number_float 'f
  | String string
  | Array "'f json list"
  | Object "(string \<times> 'f json) list"

text \<open>
  Modelled from the spec: the tree of the missing header.
  \<open>Number_integer\<close> holds an \<^verbatim>\<open>int64_t\<close> (read with \<^const>\<open>sint\<close>), \<open>Number_unsigned\<close>
  a \<^verbatim>\<open>uint64_t\<close> (read with \<^const>\<open>unat\<close>). An object is the sequence of the entries
  of its \<^verbatim>\<open>std::map\<close> in iteration order: strictly ascending in the key, where keys
  compare as \<^verbatim>\<open>std::string\<close> does (lexicographically, bytes as unsigned values).
\<close>

fun is_object :: "'f json \<Rightarrow> bool" where
  "is_object (Object m) = True"
| "is_object _ = False"

text \<open>\<^verbatim>\<open>std::map::find\<close>.\<close>

fun map_find :: "(string \<times> 'a) list \<Rightarrow> string \<Rightarrow> 'a option" where
  "map_find [] k = None"
| "map_find ((k', v) # m) k = (if k = k' then Some v else map_find m k)"

text \<open>\<^verbatim>\<open>m[k] = v\<close> on a \<^verbatim>\<open>std::map\<close>: replaces the entry at \<open>k\<close> or inserts a new one at its
  place in the order.\<close>

fun map_assign :: "string \<Rightarrow> 'a \<Rightarrow> (string \<times> 'a) list \<Rightarrow> (string \<times> 'a) list" where
  "map_assign k v [] = [(k, v)]"
| "map_assign k v ((k', v') # m) =
     (if k < k' then (k, v) # (k', v') # m
      else if k = k' then (k, v) # m
      else (k', v') # map_assign k v m)"

text \<open>\<^verbatim>\<open>j.find(key)\<close>: the end iterator (here \<open>None\<close>) when \<open>j\<close> is not an object or has no
  such key.\<close>

fun json_find :: "'f json \<Rightarrow> string \<Rightarrow> 'f json option" where
  "json_find (Object m) k = map_find m k"
| "json_find _ k = None"

text \<open>\<^verbatim>\<open>j[key] = v\<close> on a non-const value: a null value silently becomes an empty object
  first; any other non-object throws \<^verbatim>\<open>type_error\<close> (305).\<close>

fun subscript_assign :: "'f json \<Rightarrow> string \<Rightarrow> 'f json \<Rightarrow> exception + 'f json" where
  "subscript_assign Null k v = Inr (Object [(k, v)])"
| "subscript_assign (Object m) k v = Inr (Object (map_assign k v m))"
| "subscript_assign _ k v = Inl type_error"

text \<open>The entries of a document: those of the map of an object, none for any other value.\<close>

fun entries :: "'f json \<Rightarrow> (string \<times> 'f json) list" where
  "entries (Object m) = m"
| "entries _ = []"

text \<open>
  Modelled from the spec: the constructor of the missing header that takes a
  \<^verbatim>\<open>std::initializer_list\<close> of JSON values. When every element of the list is an array of
  two elements of which the first is a string, the new value is the object with these
  pairs as its entries (added with \<^verbatim>\<open>emplace\<close>, so that of two equal keys the first
  stays); otherwise it is the array of the elements.
\<close>

fun is_key_value :: "'f json \<Rightarrow> bool" where
  "is_key_value (Array [String k, v]) = True"
| "is_key_value _ = False"

fun map_emplace :: "string \<Rightarrow> 'a \<Rightarrow> (string \<times> 'a) list \<Rightarrow> (string \<times> 'a) list" where
  "map_emplace k v [] = [(k, v)]"
| "map_emplace k v ((k', v') # m) =
     (if k < k' then (k, v) # (k', v') # m
      else if k = k' then (k', v') # m
      else (k', v') # map_emplace k v m)"

fun emplace_all :: "'f json list \<Rightarrow> (string \<times> 'f json) list \<Rightarrow> (string \<times> 'f json) list" where
  "emplace_all [] m = m"
| "emplace_all (Array [String k, v] # es) m = emplace_all es (map_emplace k v m)"
| "emplace_all (e # es) m = emplace_all es m"

definition initializer_list_json :: "'f json list \<Rightarrow> 'f json" where
  "initializer_list_json init =
     (if list_all is_key_value init then Object (emplace_all init []) else Array init)"

subsection \<open>UTF-8\<close>

text \<open>
  Both the serializer and the lexer accept exactly the well-formed UTF-8 byte sequences
  (the serializer by a table-driven automaton, the lexer by explicit byte ranges). The
  automaton below is the one both implement; the state says what the bytes read so far
  allow next.
\<close>

datatype utf8_state =
    utf8_accept | utf8_reject
  | utf8_tail1 | utf8_tail2 | utf8_tail3
  | utf8_E0 | utf8_ED | utf8_F0 | utf8_F4

fun utf8_decode :: "utf8_state \<Rightarrow> nat \<Rightarrow> utf8_state" where
  "utf8_decode utf8_accept b =
     (if b < 0x80 then utf8_accept
      else if 0xC2 \<le> b \<and> b \<le> 0xDF then utf8_tail1
      else if b = 0xE0 then utf8_E0
      else if (0xE1 \<le> b \<and> b \<le> 0xEC) \<or> b = 0xEE \<or> b = 0xEF then utf8_tail2
      else if b = 0xED then utf8_ED
      else if b = 0xF0 then utf8_F0
      else if 0xF1 \<le> b \<and> b \<le> 0xF3 then utf8_tail3
      else if b = 0xF4 then utf8_F4
      else utf8_reject)"
| "utf8_decode utf8_tail1 b = (if 0x80 \<le> b \<and> b \<le> 0xBF then utf8_accept else utf8_reject)"
| "utf8_decode utf8_tail2 b = (if 0x80 \<le> b \<and> b \<le> 0xBF then utf8_tail1 else utf8_reject)"
| "utf8_decode utf8_tail3 b = (if 0x80 \<le> b \<and> b \<le> 0xBF then utf8_tail2 else utf8_reject)"
| "utf8_decode utf8_E0 b = (if 0xA0 \<le> b \<and> b \<le> 0xBF then utf8_tail1 else utf8_reject)"
| "utf8_decode utf8_ED b = (if 0x80 \<le> b \<and> b \<le> 0x9F then utf8_tail1 else utf8_reject)"
| "utf8_decode utf8_F0 b = (if 0x90 \<le> b \<and> b \<le> 0xBF then utf8_tail2 else utf8_reject)"
| "utf8_decode utf8_F4 b = (if 0x80 \<le> b \<and> b \<le> 0x8F then utf8_tail2 else utf8_reject)"
| "utf8_decode utf8_reject b = utf8_reject"

subsection \<open>The serializer: \<^verbatim>\<open>dump()\<close>\<close>

text \<open>
  Modelled from the spec: the capability to serialize a tree to text, which is
  \<^verbatim>\<open>dump()\<close> of the missing header, with its default arguments: no indentation,
  \<^verbatim>\<open>ensure_ascii = false\<close>, strict error handling. Integers are written in decimal.
\<close>

definition digit_char :: "nat \<Rightarrow> char" where
  "digit_char d = char_of (0x30 + d)"

function dump_unsigned :: "nat \<Rightarrow> string" where
  "dump_unsigned n =
     (if n < 10 then [digit_char n] else dump_unsigned (n div 10) @ [digit_char (n mod 10)])"
  by pat_completeness auto
termination
  by (relation "measure id") auto

declare dump_unsigned.simps [simp del]

definition dump_integer :: "int \<Rightarrow> string" where
  "dump_integer i = (if i < 0 then CHR ''-'' # dump_unsigned (nat (- i)) else dump_unsigned (nat i))"

text \<open>Lower-case hexadecimal digit, as \<^verbatim>\<open>%04x\<close> prints it.\<close>

definition hex_char :: "nat \<Rightarrow> char" where
  "hex_char d = (if d < 10 then char_of (0x30 + d) else char_of (0x61 + (d - 10)))"

text \<open>
  The text written for a code point below \<^verbatim>\<open>0x80\<close>: the short escapes, \<^verbatim>\<open>\u00xx\<close> for
  the other control characters, and the byte itself otherwise (also for \<^verbatim>\<open>0x7F\<close>, since
  \<^verbatim>\<open>ensure_ascii\<close> is off).
\<close>

definition escape_ascii :: "char \<Rightarrow> string" where
  "escape_ascii c =
     (let b = (of_char c :: nat) in
      if b = 0x08 then [CHR 0x5C, CHR ''b'']
      else if b = 0x09 then [CHR 0x5C, CHR ''t'']
      else if b = 0x0A then [CHR 0x5C, CHR ''n'']
      else if b = 0x0C then [CHR 0x5C, CHR ''f'']
      else if b = 0x0D then [CHR 0x5C, CHR ''r'']
      else if b = 0x22 then [CHR 0x5C, CHR 0x22]
      else if b = 0x5C then [CHR 0x5C, CHR 0x5C]
      else if b \<le> 0x1F then
        [CHR 0x5C, CHR ''u'', CHR ''0'', CHR ''0'', hex_char (b div 16), hex_char (b mod 16)]
      else [c])"

text \<open>
  \<^verbatim>\<open>dump_escaped\<close>: the bytes of a string are decoded one by one. A byte that completes
  an ASCII code point is written escaped, every other byte is copied; an ill-formed
  byte, or a sequence cut off by the end of the string, throws \<^verbatim>\<open>type_error\<close> (316).
\<close>

fun dump_escaped :: "utf8_state \<Rightarrow> string \<Rightarrow> exception + string" where
  "dump_escaped st [] = (if st = utf8_accept then Inr [] else Inl type_error)"
| "dump_escaped st (c # cs) =
     (let st' = utf8_decode st (of_char c) in
      if st' = utf8_reject then Inl type_error
      else (case dump_escaped st' cs of
              Inl e \<Rightarrow> Inl e
            | Inr r \<Rightarrow> Inr ((if st = utf8_accept \<and> st' = utf8_accept then escape_ascii c else [c]) @ r)))"

definition dump_string :: "string \<Rightarrow> exception + string" where
  "dump_string s =
     (case dump_escaped utf8_accept s of
        Inl e \<Rightarrow> Inl e
      | Inr r \<Rightarrow> Inr (CHR 0x22 # r @ [CHR 0x22]))"

text \<open>\<^verbatim>\<open>dump_float\<close>: a value that is not finite is written as \<^verbatim>\<open>null\<close>.\<close>

definition dump_float :: "'f float_ops \<Rightarrow> 'f \<Rightarrow> string" where
  "dump_float F x = (if isfinite F x then float_to_chars F x else ''null'')"

fun dump :: "'f float_ops \<Rightarrow> 'f json \<Rightarrow> exception + string"
  and dump_elements :: "'f float_ops \<Rightarrow> 'f json list \<Rightarrow> exception + string"
  and dump_members :: "'f float_ops \<Rightarrow> (string \<times> 'f json) list \<Rightarrow> exception + string"
where
  "dump F Null = Inr ''null''"
| "dump F (Boolean b) = Inr (if b then ''true'' else ''false'')"
| "dump F (Number_integer i) = Inr (dump_integer (sint i))"
| "dump F (Number_unsigned u) = Inr (dump_unsigned (unat u))"
| "dump F (Number_float x) = Inr (dump_float F x)"
| "dump F (String s) = dump_string s"
| "dump F (Array xs) =
     (case dump_elements F xs of Inl e \<Rightarrow> Inl e | Inr r \<Rightarrow> Inr (CHR ''['' # r @ '']''))"
| "dump F (Object m) =
     (case dump_members F m of Inl e \<Rightarrow> Inl e | Inr r \<Rightarrow> Inr (CHR ''{'' # r @ ''}''))"
| "dump_elements F [] = Inr []"
| "dump_elements F [x] = dump F x"
| "dump_elements F (x # y # xs) =
     (case dump F x of
        Inl e \<Rightarrow> Inl e
      | Inr r \<Rightarrow> (case dump_elements F (y # xs) of Inl e \<Rightarrow> Inl e | Inr rs \<Rightarrow> Inr (r @ CHR '','' # rs)))"
| "dump_members F [] = Inr []"
| "dump_members F [(k, v)] =
     (case dump_string k of
        Inl e \<Rightarrow> Inl e
      | Inr q \<Rightarrow> (case dump F v of Inl e \<Rightarrow> Inl e | Inr r \<Rightarrow> Inr (q @ CHR '':'' # r)))"
| "dump_members F ((k, v) # kv # m) =
     (case dump_string k of
        Inl e \<Rightarrow> Inl e
      | Inr q \<Rightarrow>
          (case dump F v of
             Inl e \<Rightarrow> Inl e
           | Inr r \<Rightarrow>
               (case dump_members F (kv # m) of
                  Inl e \<Rightarrow> Inl e
                | Inr rs \<Rightarrow> Inr (q @ CHR '':'' # r @ CHR '','' # rs))))"

subsection \<open>The lexer\<close>

text \<open>
  Modelled from the spec: the capability to parse text to a tree, which is \<^verbatim>\<open>parse\<close>
  of the missing header; its first half is the lexer.
  The lexer reads the input one byte at a time. Its model is a state machine over the
  bytes: the state says which of the library's scanning functions is active and what it
  has read so far. The result is the sequence of tokens in the order in which the
  parser asks for them; it ends with \<open>t_end_of_input\<close>, or with \<open>t_parse_error\<close> at
  the first byte that fits no token.
\<close>

datatype 'f token =
    t_literal_true | t_literal_false | t_literal_null
  | t_value_string string
  | t_value_unsigned "64 word"
  | t_value_integer "64 word"
  | t_value_float 'f
  | t_begin_array | t_begin_object | t_end_array | t_end_object
  | t_name_separator | t_value_separator
  | t_parse_error | t_end_of_input

datatype number_state =
    ns_minus | ns_zero | ns_any1 | ns_decimal1 | ns_decimal2 | ns_exponent | ns_sign | ns_any2

definition is_digit :: "char \<Rightarrow> bool" where
  "is_digit c \<longleftrightarrow> 0x30 \<le> (of_char c :: nat) \<and> (of_char c :: nat) \<le> 0x39"

text \<open>\<^verbatim>\<open>scan_number\<close>: the next state on a byte that continues the number, \<open>None\<close> on
  any other byte.\<close>

fun scan_number_next :: "number_state \<Rightarrow> char \<Rightarrow> number_state option" where
  "scan_number_next ns_minus c =
     (if c = CHR ''0'' then Some ns_zero else if is_digit c then Some ns_any1 else None)"
| "scan_number_next ns_zero c =
     (if c = CHR ''.'' then Some ns_decimal1
      else if c = CHR ''e'' \<or> c = CHR ''E'' then Some ns_exponent else None)"
| "scan_number_next ns_any1 c =
     (if is_digit c then Some ns_any1
      else if c = CHR ''.'' then Some ns_decimal1
      else if c = CHR ''e'' \<or> c = CHR ''E'' then Some ns_exponent else None)"
| "scan_number_next ns_decimal1 c = (if is_digit c then Some ns_decimal2 else None)"
| "scan_number_next ns_decimal2 c =
     (if is_digit c then Some ns_decimal2
      else if c = CHR ''e'' \<or> c = CHR ''E'' then Some ns_exponent else None)"
| "scan_number_next ns_exponent c =
     (if c = CHR ''+'' \<or> c = CHR ''-'' then Some ns_sign
      else if is_digit c then Some ns_any2 else None)"
| "scan_number_next ns_sign c = (if is_digit c then Some ns_any2 else None)"
| "scan_number_next ns_any2 c = (if is_digit c then Some ns_any2 else None)"

text \<open>The states in which a number may end.\<close>

fun scan_number_done :: "number_state \<Rightarrow> bool" where
  "scan_number_done ns_zero = True"
| "scan_number_done ns_any1 = True"
| "scan_number_done ns_decimal2 = True"
| "scan_number_done ns_any2 = True"
| "scan_number_done _ = False"

text \<open>The value of a sequence of decimal digits, as \<^verbatim>\<open>strtoull\<close> computes it.\<close>

definition decimal_value :: "string \<Rightarrow> nat" where
  "decimal_value ds = foldl (\<lambda>a c. 10 * a + (of_char c - 0x30)) 0 ds"

text \<open>
  The token of a scanned number. A number without fraction and exponent becomes an
  unsigned integer if it has no sign and fits 64 bits, a signed integer if it has a
  sign and fits; every other number is converted with \<^verbatim>\<open>strtod\<close>.
\<close>

definition number_token :: "'f float_ops \<Rightarrow> number_state \<Rightarrow> string \<Rightarrow> 'f token" where
  "number_token F ns buf =
     (if ns = ns_decimal2 \<or> ns = ns_any2 then t_value_float (strtod F buf)
      else (case buf of
              [] \<Rightarrow> t_parse_error
            | c # ds \<Rightarrow>
                if c = CHR ''-'' then
                  (if decimal_value ds \<le> 2 ^ 63
                   then t_value_integer (word_of_int (- int (decimal_value ds)))
                   else t_value_float (strtod F buf))
                else
                  (if decimal_value buf < 2 ^ 64
                   then t_value_unsigned (word_of_nat (decimal_value buf))
                   else t_value_float (strtod F buf))))"

text \<open>\<^verbatim>\<open>get_codepoint\<close> reads four hexadecimal digits of either case.\<close>

definition hex_value :: "char \<Rightarrow> nat option" where
  "hex_value c =
     (let b = (of_char c :: nat) in
      if 0x30 \<le> b \<and> b \<le> 0x39 then Some (b - 0x30)
      else if 0x41 \<le> b \<and> b \<le> 0x46 then Some (b - 0x37)
      else if 0x61 \<le> b \<and> b \<le> 0x66 then Some (b - 0x57)
      else None)"

definition utf8_encode :: "nat \<Rightarrow> string" where
  "utf8_encode cp =
     (if cp < 0x80 then [char_of cp]
      else if cp \<le> 0x7FF then [char_of (0xC0 + cp div 64), char_of (0x80 + cp mod 64)]
      else if cp \<le> 0xFFFF then
        [char_of (0xE0 + cp div 4096), char_of (0x80 + cp div 64 mod 64), char_of (0x80 + cp mod 64)]
      else
        [char_of (0xF0 + cp div 262144), char_of (0x80 + cp div 4096 mod 64),
         char_of (0x80 + cp div 64 mod 64), char_of (0x80 + cp mod 64)])"

text \<open>The character that a one-letter escape stands for.\<close>

definition simple_escape :: "char \<Rightarrow> char option" where
  "simple_escape c =
     (if c = CHR 0x22 then Some (CHR 0x22)
      else if c = CHR 0x5C then Some (CHR 0x5C)
      else if c = CHR ''/'' then Some (CHR ''/'')
      else if c = CHR ''b'' then Some (CHR 0x08)
      else if c = CHR ''f'' then Some (CHR 0x0C)
      else if c = CHR ''n'' then Some (CHR 0x0A)
      else if c = CHR ''r'' then Some (CHR 0x0D)
      else if c = CHR ''t'' then Some (CHR 0x09)
      else None)"

datatype 'f lexer_state =
    scan
  | scan_literal string "'f token"
  | scan_number number_state string
  | scan_string utf8_state string
  | scan_escape string
  | scan_codepoint string "nat option" nat nat
  | scan_low_surrogate_backslash string nat
  | scan_low_surrogate_u string nat

text \<open>
  \<open>scan\<close> is the state between tokens. \<open>scan_literal r t\<close> still expects the bytes \<open>r\<close>
  of the literal whose token is \<open>t\<close>. \<open>scan_number ns buf\<close> and \<open>scan_string u buf\<close> carry
  the token buffer. \<open>scan_codepoint buf hi n v\<close> has read \<open>n\<close> hexadecimal digits with
  value \<open>v\<close> of a \<^verbatim>\<open>\u\<close> escape, \<open>hi\<close> being the high surrogate that went before, if any.
\<close>

text \<open>What four digits of a \<^verbatim>\<open>\u\<close> escape amount to: the next state, or \<open>None\<close> for a
  surrogate that is out of place.\<close>

definition codepoint_done :: "string \<Rightarrow> nat option \<Rightarrow> nat \<Rightarrow> 'f lexer_state option" where
  "codepoint_done buf hi cp =
     (case hi of
        None \<Rightarrow>
          if 0xD800 \<le> cp \<and> cp \<le> 0xDBFF then Some (scan_low_surrogate_backslash buf cp)
          else if 0xDC00 \<le> cp \<and> cp \<le> 0xDFFF then None
          else Some (scan_string utf8_accept (buf @ utf8_encode cp))
      | Some cp1 \<Rightarrow>
          if 0xDC00 \<le> cp \<and> cp \<le> 0xDFFF
          then Some (scan_string utf8_accept (buf @ utf8_encode (cp1 * 1024 + cp - 0x35FDC00)))
          else None)"

definition is_whitespace :: "char \<Rightarrow> bool" where
  "is_whitespace c \<longleftrightarrow> c = CHR '' '' \<or> c = CHR 0x09 \<or> c = CHR 0x0A \<or> c = CHR 0x0D"

function (sequential) lex :: "'f float_ops \<Rightarrow> 'f lexer_state \<Rightarrow> string \<Rightarrow> 'f token list" where
  "lex F scan [] = [t_end_of_input]"
| "lex F scan (c # cs) =
     (if is_whitespace c then lex F scan cs
      else if c = CHR ''['' then t_begin_array # lex F scan cs
      else if c = CHR '']'' then t_end_array # lex F scan cs
      else if c = CHR ''{'' then t_begin_object # lex F scan cs
      else if c = CHR ''}'' then t_end_object # lex F scan cs
      else if c = CHR '':'' then t_name_separator # lex F scan cs
      else if c = CHR '','' then t_value_separator # lex F scan cs
      else if c = CHR ''t'' then lex F (scan_literal ''rue'' t_literal_true) cs
      else if c = CHR ''f'' then lex F (scan_literal ''alse'' t_literal_false) cs
      else if c = CHR ''n'' then lex F (scan_literal ''ull'' t_literal_null) cs
      else if c = CHR 0x22 then lex F (scan_string utf8_accept []) cs
      else if c = CHR ''-'' then lex F (scan_number ns_minus [c]) cs
      else if c = CHR ''0'' then lex F (scan_number ns_zero [c]) cs
      else if is_digit c then lex F (scan_number ns_any1 [c]) cs
      else if c = CHR 0x00 then [t_end_of_input]
      else [t_parse_error])"
| "lex F (scan_literal r t) [] = [t_parse_error]"
| "lex F (scan_literal r t) (c # cs) =
     (case r of
        [] \<Rightarrow> [t_parse_error]
      | x # r' \<Rightarrow>
          if c \<noteq> x then [t_parse_error]
          else if r' = [] then t # lex F scan cs
          else lex F (scan_literal r' t) cs)"
| "lex F (scan_number ns buf) [] =
     (if scan_number_done ns then [number_token F ns buf, t_end_of_input] else [t_parse_error])"
| "lex F (scan_number ns buf) (c # cs) =
     (case scan_number_next ns c of
        Some ns' \<Rightarrow> lex F (scan_number ns' (buf @ [c])) cs
      | None \<Rightarrow>
          if scan_number_done ns then number_token F ns buf # lex F scan (c # cs)
          else [t_parse_error])"
| "lex F (scan_string u buf) [] = [t_parse_error]"
| "lex F (scan_string u buf) (c # cs) =
     (if u = utf8_accept \<and> c = CHR 0x22 then t_value_string buf # lex F scan cs
      else if u = utf8_accept \<and> c = CHR 0x5C then lex F (scan_escape buf) cs
      else if u = utf8_accept \<and> (of_char c :: nat) < 0x20 then [t_parse_error]
      else if utf8_decode u (of_char c) = utf8_reject then [t_parse_error]
      else lex F (scan_string (utf8_decode u (of_char c)) (buf @ [c])) cs)"
| "lex F (scan_escape buf) [] = [t_parse_error]"
| "lex F (scan_escape buf) (c # cs) =
     (if c = CHR ''u'' then lex F (scan_codepoint buf None 0 0) cs
      else (case simple_escape c of
              None \<Rightarrow> [t_parse_error]
            | Some x \<Rightarrow> lex F (scan_string utf8_accept (buf @ [x])) cs))"
| "lex F (scan_codepoint buf hi n v) [] = [t_parse_error]"
| "lex F (scan_codepoint buf hi n v) (c # cs) =
     (case hex_value c of
        None \<Rightarrow> [t_parse_error]
      | Some d \<Rightarrow>
          if n < 3 then lex F (scan_codepoint buf hi (Suc n) (16 * v + d)) cs
          else (case codepoint_done buf hi (16 * v + d) of
                  None \<Rightarrow> [t_parse_error]
                | Some st \<Rightarrow> lex F st cs))"
| "lex F (scan_low_surrogate_backslash buf cp) [] = [t_parse_error]"
| "lex F (scan_low_surrogate_backslash buf cp) (c # cs) =
     (if c = CHR 0x5C then lex F (scan_low_surrogate_u buf cp) cs else [t_parse_error])"
| "lex F (scan_low_surrogate_u buf cp) [] = [t_parse_error]"
| "lex F (scan_low_surrogate_u buf cp) (c # cs) =
     (if c = CHR ''u'' then lex F (scan_codepoint buf (Some cp) 0 0) cs else [t_parse_error])"
  by pat_completeness auto
termination
  by (relation "measure (\<lambda>(F, st, cs). 2 * length cs + (case st of scan \<Rightarrow> 0 | _ \<Rightarrow> 1))")
    (auto split: lexer_state.split)

text \<open>
  The first call of the lexer skips a byte order mark: input that starts with the byte
  \<^verbatim>\<open>0xEF\<close> must go on with \<^verbatim>\<open>0xBB 0xBF\<close>.
\<close>

definition scan_tokens :: "'f float_ops \<Rightarrow> string \<Rightarrow> 'f token list" where
  "scan_tokens F text =
     (case text of
        [] \<Rightarrow> lex F scan []
      | c # cs \<Rightarrow>
          if c = CHR 0xEF then
            (case cs of
               c2 # c3 # cs' \<Rightarrow>
                 if c2 = CHR 0xBB \<and> c3 = CHR 0xBF then lex F scan cs' else [t_parse_error]
             | _ \<Rightarrow> [t_parse_error])
          else lex F scan text)"

subsection \<open>The parser: \<^verbatim>\<open>parse()\<close>\<close>

text \<open>
  Modelled from the spec: the second half of \<^verbatim>\<open>parse\<close> of the missing header.
  The parser keeps a stack of the containers that are open. In the model a stack entry
  holds what the container has received so far: the elements of an array, or the
  entries of an object together with the key whose value is being read.
\<close>

datatype 'f frame =
    in_array "'f json list"
  | in_object "(string \<times> 'f json) list" string

datatype 'f parser_state =
    expect_value "'f frame list"
  | after_begin_array "'f frame list"
  | after_begin_object "'f frame list"
  | expect_key "(string \<times> 'f json) list" "'f frame list"
  | expect_name_separator "(string \<times> 'f json) list" string "'f frame list"
  | after_value "'f frame" "'f frame list"
  | finished "'f json"

text \<open>A complete value goes to the innermost open container, or is the result when no
  container is open. A key that occurs again in an object replaces the earlier entry.\<close>

fun handle_value :: "'f json \<Rightarrow> 'f frame list \<Rightarrow> 'f parser_state" where
  "handle_value v [] = finished v"
| "handle_value v (in_array xs # st) = after_value (in_array (xs @ [v])) st"
| "handle_value v (in_object m k # st) = after_value (in_object (map_assign k v m) k) st"

text \<open>A token at the place of a value. A number that \<^verbatim>\<open>strtod\<close> did not make finite
  throws \<^verbatim>\<open>out_of_range\<close> (406).\<close>

fun value_token :: "'f float_ops \<Rightarrow> 'f token \<Rightarrow> 'f frame list \<Rightarrow> exception + 'f parser_state" where
  "value_token F t_begin_object st = Inr (after_begin_object st)"
| "value_token F t_begin_array st = Inr (after_begin_array st)"
| "value_token F (t_value_float x) st =
     (if isfinite F x then Inr (handle_value (Number_float x) st) else Inl out_of_range)"
| "value_token F t_literal_false st = Inr (handle_value (Boolean False) st)"
| "value_token F t_literal_null st = Inr (handle_value Null st)"
| "value_token F t_literal_true st = Inr (handle_value (Boolean True) st)"
| "value_token F (t_value_integer i) st = Inr (handle_value (Number_integer i) st)"
| "value_token F (t_value_string s) st = Inr (handle_value (String s) st)"
| "value_token F (t_value_unsigned u) st = Inr (handle_value (Number_unsigned u) st)"
| "value_token F _ st = Inl parse_error"

fun parser_step :: "'f float_ops \<Rightarrow> 'f parser_state \<Rightarrow> 'f token \<Rightarrow> exception + 'f parser_state" where
  "parser_step F (expect_value st) t = value_token F t st"
| "parser_step F (after_begin_array st) t =
     (case t of
        t_end_array \<Rightarrow> Inr (handle_value (Array []) st)
      | _ \<Rightarrow> value_token F t (in_array [] # st))"
| "parser_step F (after_begin_object st) t =
     (case t of
        t_end_object \<Rightarrow> Inr (handle_value (Object []) st)
      | t_value_string k \<Rightarrow> Inr (expect_name_separator [] k st)
      | _ \<Rightarrow> Inl parse_error)"
| "parser_step F (expect_key m st) t =
     (case t of
        t_value_string k \<Rightarrow> Inr (expect_name_separator m k st)
      | _ \<Rightarrow> Inl parse_error)"
| "parser_step F (expect_name_separator m k st) t =
     (case t of
        t_name_separator \<Rightarrow> Inr (expect_value (in_object m k # st))
      | _ \<Rightarrow> Inl parse_error)"
| "parser_step F (after_value (in_array xs) st) t =
     (case t of
        t_value_separator \<Rightarrow> Inr (expect_value (in_array xs # st))
      | t_end_array \<Rightarrow> Inr (handle_value (Array xs) st)
      | _ \<Rightarrow> Inl parse_error)"
| "parser_step F (after_value (in_object m k) st) t =
     (case t of
        t_value_separator \<Rightarrow> Inr (expect_key m st)
      | t_end_object \<Rightarrow> Inr (handle_value (Object m) st)
      | _ \<Rightarrow> Inl parse_error)"
| "parser_step F (finished v) t = Inl parse_error"

text \<open>
  The parser runs until the value is complete and then, being strict, requires the end
  of the input. Every failure of the default \<^verbatim>\<open>parse\<close> is an exception.
\<close>

fun sax_parse :: "'f float_ops \<Rightarrow> 'f parser_state \<Rightarrow> 'f token list \<Rightarrow> exception + 'f json" where
  "sax_parse F s [] = Inl parse_error"
| "sax_parse F (finished v) (t # ts) =
     (case t of t_end_of_input \<Rightarrow> Inr v | _ \<Rightarrow> Inl parse_error)"
| "sax_parse F s (t # ts) =
     (case parser_step F s t of Inl e \<Rightarrow> Inl e | Inr s' \<Rightarrow> sax_parse F s' ts)"

definition parse :: "'f float_ops \<Rightarrow> string \<Rightarrow> exception + 'f json" where
  "parse F text = sax_parse F (expect_value []) (scan_tokens F text)"

section \<open>config.hpp\<close>

subsection \<open>\<^verbatim>\<open>ConfigVariable_t\<close>\<close>

text \<open>
  An object of the class template \<^verbatim>\<open>ConfigVariable_t<_Ty>\<close> has the members \<^verbatim>\<open>key_\<close>
  (from its base class) and \<^verbatim>\<open>value_\<close>; a name cannot end in an underscore here, so the
  members of both classes are written with the prefix \<open>m_\<close> instead. Its member
  functions \<^verbatim>\<open>load\<close> and \<^verbatim>\<open>save\<close> are virtual and convert between \<^verbatim>\<open>_Ty\<close> and JSON with
  the conversions that the library selects for \<^verbatim>\<open>_Ty\<close>. Objects of different instances of the template stand in one
  registry, so the model gives all of them one type: \<open>'v\<close> is a type that holds the
  values of every \<^verbatim>\<open>_Ty\<close> in use, and each object carries the two conversions of its
  own \<^verbatim>\<open>_Ty\<close>: \<open>to_json\<close> for the assignment of a \<^verbatim>\<open>_Ty\<close> to a JSON value, and \<open>from_json\<close>
  for \<^verbatim>\<open>get<_Ty>()\<close>, which throws when the JSON value has no conversion to \<^verbatim>\<open>_Ty\<close>.
\<close>

record ('v, 'f) ConfigVariable_t =
  m_key :: string
  m_value :: 'v
  to_json :: "'v \<Rightarrow> 'f json"
  from_json :: "'f json \<Rightarrow> exception + 'v"

text \<open>
  \<^verbatim>\<open>
  void load(const nlohmann::json &object) override {
    if (object.find(key_) == object.end())
      return;
    value_ = object[key_].get<_Ty>();
  }
  \<close>
  An exception of \<^verbatim>\<open>get<_Ty>()\<close> leaves the function before the assignment.
\<close>

definition ConfigVariable_t_load ::
  "('v, 'f) ConfigVariable_t \<Rightarrow> 'f json \<Rightarrow> exception + ('v, 'f) ConfigVariable_t" where
  "ConfigVariable_t_load this object =
     (case json_find object (m_key this) of
        None \<Rightarrow> Inr this
      | Some j \<Rightarrow>
          (case from_json this j of
             Inl e \<Rightarrow> Inl e
           | Inr v \<Rightarrow> Inr (this\<lparr>m_value := v\<rparr>)))"

text \<open>
  \<^verbatim>\<open>
  void save(nlohmann::json &object) const override { object[key_] = value_; }
  \<close>
  The result is the new content of \<^verbatim>\<open>object\<close>.
\<close>

definition ConfigVariable_t_save ::
  "('v, 'f) ConfigVariable_t \<Rightarrow> 'f json \<Rightarrow> exception + 'f json" where
  "ConfigVariable_t_save this object = subscript_assign object (m_key this) (to_json this (m_value this))"

subsection \<open>\<^verbatim>\<open>Config\<close>\<close>

text \<open>
  \<^verbatim>\<open>Config\<close> holds a path and a vector of pointers to the registered variables. A
  pointer is an address; the objects themselves live in a store that maps every address
  to the object there. Functions that change variables take the store and give the new
  one; a function that can throw after it has changed the store gives the store as it
  is when the exception leaves.
\<close>

type_synonym address = nat

type_synonym ('v, 'f) store = "address \<Rightarrow> ('v, 'f) ConfigVariable_t"

record Config =
  m_path :: string
  m_variables :: "address list"

datatype 's outcome = Normal 's | Thrown exception 's

text \<open>
  \<^verbatim>\<open>
  void add_variable(ConfigVariableBase_t *const variable) {
    variables_.push_back(variable);
  }
  \<close>
\<close>

definition add_variable :: "address \<Rightarrow> Config \<Rightarrow> Config" where
  "add_variable variable this = this\<lparr>m_variables := m_variables this @ [variable]\<rparr>"

definition set_default_path :: "string \<Rightarrow> Config \<Rightarrow> Config" where
  "set_default_path path this = this\<lparr>m_path := path\<rparr>"

text \<open>
  \<^verbatim>\<open>
  std::string get() const {
    nlohmann::json object{};
    for (auto &variable : variables_)
      variable->save(object);
    return object.dump();
  }
  \<close>
  \<^verbatim>\<open>object\<close> is value-initialised and so starts as the null value. \<open>save_all\<close> is the
  loop, \<open>get_document\<close> the value of \<^verbatim>\<open>object\<close> after it.
\<close>

fun save_all :: "('v, 'f) store \<Rightarrow> address list \<Rightarrow> 'f json \<Rightarrow> exception + 'f json" where
  "save_all h [] object = Inr object"
| "save_all h (variable # vs) object =
     (case ConfigVariable_t_save (h variable) object of
        Inl e \<Rightarrow> Inl e
      | Inr object' \<Rightarrow> save_all h vs object')"

definition get_document :: "Config \<Rightarrow> ('v, 'f) store \<Rightarrow> exception + 'f json" where
  "get_document this h = save_all h (m_variables this) Null"

definition Config_get :: "'f float_ops \<Rightarrow> Config \<Rightarrow> ('v, 'f) store \<Rightarrow> exception + string" where
  "Config_get F this h =
     (case get_document this h of
        Inl e \<Rightarrow> Inl e
      | Inr object \<Rightarrow> dump F object)"

text \<open>
  \<^verbatim>\<open>
  void set(std::string json) {
    const auto object{nlohmann::json::parse(json)};
    if (!object.is_object())
      return;
    for (auto &variable : variables_)
      variable->load(object);
  }
  \<close>
  The declaration of \<^verbatim>\<open>object\<close> is a direct-list-initialisation: \<^verbatim>\<open>auto\<close> is deduced as
  the JSON type, and the braces then hold one element of that type. The JSON type is not
  an aggregate and has a constructor from an initializer list, so the language selects
  that constructor and not the copy constructor. \<^verbatim>\<open>object\<close> is therefore not the parsed
  value but what \<open>initializer_list_json\<close> makes of the list with the parsed value as its
  only element: an array around it, or an object with one entry when the parsed value is
  an array of a string and a value. \<open>load_all\<close> is the loop.
\<close>

fun load_all :: "'f json \<Rightarrow> address list \<Rightarrow> ('v, 'f) store \<Rightarrow> ('v, 'f) store outcome" where
  "load_all object [] h = Normal h"
| "load_all object (variable # vs) h =
     (case ConfigVariable_t_load (h variable) object of
        Inl e \<Rightarrow> Thrown e h
      | Inr x \<Rightarrow> load_all object vs (h(variable := x)))"

definition Config_set ::
  "'f float_ops \<Rightarrow> Config \<Rightarrow> string \<Rightarrow> ('v, 'f) store \<Rightarrow> ('v, 'f) store outcome" where
  "Config_set F this json h =
     (case parse F json of
        Inl e \<Rightarrow> Thrown e h
      | Inr parsed \<Rightarrow>
          (let object = initializer_list_json [parsed]
           in if \<not> is_object object then Normal h
              else load_all object (m_variables this) h))"

text \<open>
  The file system is outside the program. Its state has an arbitrary type \<open>'w\<close>, and the
  three operations that \<^verbatim>\<open>load\<close> uses are parameters:
  \<^item> \<open>create_directory w p\<close> is \<^verbatim>\<open>std::filesystem::create_directory(p)\<close>, the overload
    that reports a failure by throwing: \<open>Inl\<close> the exception, or \<open>Inr\<close> the state of
    the file system after the call has returned (with \<^verbatim>\<open>true\<close> or \<^verbatim>\<open>false\<close>);
  \<^item> \<open>open_ifstream w p\<close> is \<open>None\<close> when a \<^verbatim>\<open>std::ifstream\<close> on \<open>p\<close> does not open
    (\<^verbatim>\<open>is_open()\<close> is false); when it opens, it is what reading it to the end gives:
    \<open>Inr\<close> the content, or \<open>Inl\<close> the exception that the stream buffer throws when
    the read fails (as it does for a directory);
  \<^item> \<open>path_append\<close> is \<^verbatim>\<open>operator/\<close> on paths.
\<close>

record 'w filesystem =
  create_directory :: "'w \<Rightarrow> string \<Rightarrow> exception + 'w"
  open_ifstream :: "'w \<Rightarrow> string \<Rightarrow> (exception + string) option"
  path_append :: "string \<Rightarrow> string \<Rightarrow> string"

text \<open>
  \<^verbatim>\<open>
  void load(std::string file_name) {
    std::filesystem::create_directory(path_);
    std::ifstream ifs{path_ / file_name, std::ios::in | std::ios::binary};
    ifs.unsetf(std::ios::skipws);
    if (ifs.is_open()) {
      std::string str{};
      std::copy(std::istreambuf_iterator<char>(ifs),
                std::istreambuf_iterator<char>(), std::back_inserter(str));
      this->set(str);
    }
  }
  \<close>
\<close>

definition Config_load ::
  "'w filesystem \<Rightarrow> 'f float_ops \<Rightarrow> Config \<Rightarrow> string \<Rightarrow> 'w \<times> ('v, 'f) store \<Rightarrow>
     ('w \<times> ('v, 'f) store) outcome" where
  "Config_load FS F this file_name s =
     (case s of (w, h) \<Rightarrow>
        (case create_directory FS w (m_path this) of
           Inl e \<Rightarrow> Thrown e (w, h)
         | Inr w' \<Rightarrow>
             (case open_ifstream FS w' (path_append FS (m_path this) file_name) of
                None \<Rightarrow> Normal (w', h)
              | Some (Inl e) \<Rightarrow> Thrown e (w', h)
              | Some (Inr str) \<Rightarrow>
                  (case Config_set F this str h of
                     Normal h' \<Rightarrow> Normal (w', h')
                   | Thrown e h' \<Rightarrow> Thrown e (w', h')))))"

subsection \<open>Construction of variables\<close>

text \<open>
  \<^verbatim>\<open>
  static Config instance{};

  constexpr ConfigVariable_t() = default;
  ConfigVariable_t(const std::string key, const _Ty value)
      : ConfigVariableBase_t{key}, value_{value} {
    instance.add_variable(this);
  }
  \<close>
  A constructor runs on the storage at the address \<open>this\<close>. The state it works on is the
  global \<^verbatim>\<open>instance\<close> together with the store. The two conversions stand for the
  template argument. The defaulted constructor leaves \<^verbatim>\<open>key_\<close> empty and default-initialises
  \<^verbatim>\<open>value_\<close>; \<open>v0\<close> is the value that this leaves in the member.
\<close>

definition ConfigVariable_t_ctor ::
  "address \<Rightarrow> ('v \<Rightarrow> 'f json) \<Rightarrow> ('f json \<Rightarrow> exception + 'v) \<Rightarrow> string \<Rightarrow> 'v \<Rightarrow>
     Config \<times> ('v, 'f) store \<Rightarrow> Config \<times> ('v, 'f) store" where
  "ConfigVariable_t_ctor this tj fj key value s =
     (case s of (instance, h) \<Rightarrow>
        (add_variable this instance,
         h(this := \<lparr>m_key = key, m_value = value, to_json = tj, from_json = fj\<rparr>)))"

definition ConfigVariable_t_default_ctor ::
  "address \<Rightarrow> ('v \<Rightarrow> 'f json) \<Rightarrow> ('f json \<Rightarrow> exception + 'v) \<Rightarrow> 'v \<Rightarrow>
     Config \<times> ('v, 'f) store \<Rightarrow> Config \<times> ('v, 'f) store" where
  "ConfigVariable_t_default_ctor this tj fj v0 s =
     (case s of (instance, h) \<Rightarrow>
        (instance, h(this := \<lparr>m_key = [], m_value = v0, to_json = tj, from_json = fj\<rparr>)))"

subsection \<open>Three instances of the template\<close>

text \<open>
  The variables of the examples have the types \<^verbatim>\<open>int\<close>, \<^verbatim>\<open>bool\<close> and \<^verbatim>\<open>std::string\<close>. Their
  conversions are the library's: an \<^verbatim>\<open>int\<close> becomes a signed integer, and a JSON value
  converts to \<^verbatim>\<open>int\<close> when it is a number or a boolean, to \<^verbatim>\<open>bool\<close> when it is a boolean,
  to \<^verbatim>\<open>std::string\<close> when it is a string; every other conversion throws
  \<^verbatim>\<open>type_error\<close> (302). A conversion to JSON is only ever applied to a value of its own
  type; on the other values it is given the null value.
\<close>

datatype cpp_value = int_value "32 word" | bool_value bool | string_value string

fun int_to_json :: "cpp_value \<Rightarrow> 'f json" where
  "int_to_json (int_value i) = Number_integer (scast i)"
| "int_to_json _ = Null"

fun int_from_json :: "'f float_ops \<Rightarrow> 'f json \<Rightarrow> exception + cpp_value" where
  "int_from_json F (Number_unsigned u) = Inr (int_value (ucast u))"
| "int_from_json F (Number_integer i) = Inr (int_value (ucast i))"
| "int_from_json F (Number_float x) = Inr (int_value (word_of_int (float_to_integer F x)))"
| "int_from_json F (Boolean b) = Inr (int_value (if b then 1 else 0))"
| "int_from_json F _ = Inl type_error"

fun bool_to_json :: "cpp_value \<Rightarrow> 'f json" where
  "bool_to_json (bool_value b) = Boolean b"
| "bool_to_json _ = Null"

fun bool_from_json :: "'f json \<Rightarrow> exception + cpp_value" where
  "bool_from_json (Boolean b) = Inr (bool_value b)"
| "bool_from_json _ = Inl type_error"

fun string_to_json :: "cpp_value \<Rightarrow> 'f json" where
  "string_to_json (string_value s) = String s"
| "string_to_json _ = Null"

fun string_from_json :: "'f json \<Rightarrow> exception + cpp_value" where
  "string_from_json (String s) = Inr (string_value s)"
| "string_from_json _ = Inl type_error"

definition int_variable :: "'f float_ops \<Rightarrow> string \<Rightarrow> 32 word \<Rightarrow> (cpp_value, 'f) ConfigVariable_t" where
  "int_variable F key i =
     \<lparr>m_key = key, m_value = int_value i, to_json = int_to_json, from_json = int_from_json F\<rparr>"

definition bool_variable :: "string \<Rightarrow> bool \<Rightarrow> (cpp_value, 'f) ConfigVariable_t" where
  "bool_variable key b =
     \<lparr>m_key = key, m_value = bool_value b, to_json = bool_to_json, from_json = bool_from_json\<rparr>"

definition string_variable :: "string \<Rightarrow> string \<Rightarrow> (cpp_value, 'f) ConfigVariable_t" where
  "string_variable key s =
     \<lparr>m_key = key, m_value = string_value s, to_json = string_to_json, from_json = string_from_json\<rparr>"

section \<open>Notions used in the statements\<close>

text \<open>
  What \<^verbatim>\<open>load\<close> makes of a variable when it returns: the variable itself if the
  document has no entry at its key, and the variable with the converted entry as its
  value otherwise.
\<close>

definition after_load :: "('v, 'f) ConfigVariable_t \<Rightarrow> 'f json \<Rightarrow> ('v, 'f) ConfigVariable_t" where
  "after_load x object =
     (case json_find object (m_key x) of
        None \<Rightarrow> x
      | Some j \<Rightarrow> (case from_json x j of Inl e \<Rightarrow> x | Inr v \<Rightarrow> x\<lparr>m_value := v\<rparr>))"

text \<open>The document has no entry at the key of the variable that fails to convert to
  its type.\<close>

definition convertible :: "('v, 'f) ConfigVariable_t \<Rightarrow> 'f json \<Rightarrow> bool" where
  "convertible x object =
     (case json_find object (m_key x) of
        None \<Rightarrow> True
      | Some j \<Rightarrow> (case from_json x j of Inl e \<Rightarrow> False | Inr v \<Rightarrow> True))"

text \<open>
  The entries that the loop of \<^verbatim>\<open>get\<close> leaves in the document, given the entries \<open>m\<close>
  it starts with.
\<close>

fun saved_entries ::
  "('v, 'f) store \<Rightarrow> address list \<Rightarrow> (string \<times> 'f json) list \<Rightarrow> (string \<times> 'f json) list" where
  "saved_entries h [] m = m"
| "saved_entries h (a # vs) m =
     saved_entries h vs (map_assign (m_key (h a)) (to_json (h a) (m_value (h a))) m)"

text \<open>Texts joined by commas, and the text of one member of an object.\<close>

fun separated :: "string list \<Rightarrow> string" where
  "separated [] = []"
| "separated [t] = t"
| "separated (t # t' # ts) = t @ CHR '','' # separated (t' # ts)"

definition member_text :: "'f float_ops \<Rightarrow> string \<times> 'f json \<Rightarrow> string \<Rightarrow> bool" where
  "member_text F kv t \<longleftrightarrow>
     (\<exists>q r. dump_string (fst kv) = Inr q \<and> dump F (snd kv) = Inr r \<and> t = q @ CHR '':'' # r)"

text \<open>
  The rest of this section serves the comparison of a document with what \<^verbatim>\<open>parse\<close> makes
  of its text. \<open>number_text s\<close> is the state in which \<^verbatim>\<open>scan_number\<close> has read all of
  \<open>s\<close>, if \<open>s\<close> is the beginning of a number; \<open>ends_value\<close> holds of the texts that can
  follow a value inside a serialised document.
\<close>

fun scan_number_all :: "number_state \<Rightarrow> string \<Rightarrow> number_state option" where
  "scan_number_all ns [] = Some ns"
| "scan_number_all ns (c # cs) =
     (case scan_number_next ns c of None \<Rightarrow> None | Some ns' \<Rightarrow> scan_number_all ns' cs)"

definition number_start :: "char \<Rightarrow> number_state option" where
  "number_start c =
     (if c = CHR ''-'' then Some ns_minus
      else if c = CHR ''0'' then Some ns_zero
      else if is_digit c then Some ns_any1
      else None)"

definition number_text :: "string \<Rightarrow> number_state option" where
  "number_text s =
     (case s of
        [] \<Rightarrow> None
      | c # cs \<Rightarrow> (case number_start c of None \<Rightarrow> None | Some ns \<Rightarrow> scan_number_all ns cs))"

definition ends_value :: "string \<Rightarrow> bool" where
  "ends_value rest =
     (case rest of [] \<Rightarrow> True | c # cs \<Rightarrow> c = CHR '','' \<or> c = CHR '']'' \<or> c = CHR ''}'')"

text \<open>
  The floating point number \<open>x\<close> is finite, the text that the serializer writes for it
  is a number with a fraction or an exponent, and \<^verbatim>\<open>strtod\<close> reads \<open>x\<close> back from that text.
\<close>

definition float_round_trip :: "'f float_ops \<Rightarrow> 'f \<Rightarrow> bool" where
  "float_round_trip F x \<longleftrightarrow>
     isfinite F x \<and>
     (number_text (float_to_chars F x) = Some ns_decimal2 \<or>
      number_text (float_to_chars F x) = Some ns_any2) \<and>
     strtod F (float_to_chars F x) = x"

text \<open>
  A document is \<open>reparsable\<close> when the keys of each of its objects are strictly ascending,
  as they are in every \<^verbatim>\<open>std::map\<close>, and each of its floating point numbers is read
  back from its own text.
\<close>

fun reparsable :: "'f float_ops \<Rightarrow> 'f json \<Rightarrow> bool"
  and reparsable_elements :: "'f float_ops \<Rightarrow> 'f json list \<Rightarrow> bool"
  and reparsable_members :: "'f float_ops \<Rightarrow> (string \<times> 'f json) list \<Rightarrow> bool"
where
  "reparsable F Null = True"
| "reparsable F (Boolean b) = True"
| "reparsable F (Number_integer i) = True"
| "reparsable F (Number_unsigned u) = True"
| "reparsable F (Number_float x) = float_round_trip F x"
| "reparsable F (String s) = True"
| "reparsable F (Array xs) = reparsable_elements F xs"
| "reparsable F (Object m) = (sorted_wrt (<) (map fst m) \<and> reparsable_members F m)"
| "reparsable_elements F [] = True"
| "reparsable_elements F (x # xs) = (reparsable F x \<and> reparsable_elements F xs)"
| "reparsable_members F [] = True"
| "reparsable_members F ((k, v) # m) = (reparsable F v \<and> reparsable_members F m)"

text \<open>
  The document that \<^verbatim>\<open>parse\<close> returns for the text of a document. It differs from the
  document in one respect: the text of a signed integer that is not negative has no
  sign, and the parser makes an unsigned integer of it.
\<close>

fun reparsed :: "'f json \<Rightarrow> 'f json"
  and reparsed_elements :: "'f json list \<Rightarrow> 'f json list"
  and reparsed_members :: "(string \<times> 'f json) list \<Rightarrow> (string \<times> 'f json) list"
where
  "reparsed Null = Null"
| "reparsed (Boolean b) = Boolean b"
| "reparsed (Number_integer i) = (if sint i < 0 then Number_integer i else Number_unsigned i)"
| "reparsed (Number_unsigned u) = Number_unsigned u"
| "reparsed (Number_float x) = Number_float x"
| "reparsed (String s) = String s"
| "reparsed (Array xs) = Array (reparsed_elements xs)"
| "reparsed (Object m) = Object (reparsed_members m)"
| "reparsed_elements [] = []"
| "reparsed_elements (x # xs) = reparsed x # reparsed_elements xs"
| "reparsed_members [] = []"
| "reparsed_members ((k, v) # m) = (k, reparsed v) # reparsed_members m"

text \<open>The tokens of the text of a document.\<close>

fun tokens_of :: "'f json \<Rightarrow> 'f token list"
  and element_tokens :: "'f json list \<Rightarrow> 'f token list"
  and member_tokens :: "(string \<times> 'f json) list \<Rightarrow> 'f token list"
where
  "tokens_of Null = [t_literal_null]"
| "tokens_of (Boolean b) = [if b then t_literal_true else t_literal_false]"
| "tokens_of (Number_integer i) = [if sint i < 0 then t_value_integer i else t_value_unsigned i]"
| "tokens_of (Number_unsigned u) = [t_value_unsigned u]"
| "tokens_of (Number_float x) = [t_value_float x]"
| "tokens_of (String s) = [t_value_string s]"
| "tokens_of (Array xs) = t_begin_array # element_tokens xs @ [t_end_array]"
| "tokens_of (Object m) = t_begin_object # member_tokens m @ [t_end_object]"
| "element_tokens [] = []"
| "element_tokens [x] = tokens_of x"
| "element_tokens (x # y # xs) = tokens_of x @ t_value_separator # element_tokens (y # xs)"
| "member_tokens [] = []"
| "member_tokens [(k, v)] = t_value_string k # t_name_separator # tokens_of v"
| "member_tokens ((k, v) # kv # m) =
     t_value_string k # t_name_separator # tokens_of v @ t_value_separator # member_tokens (kv # m)"

text \<open>The store that a call leaves behind, whether it returns or throws.\<close>

fun store_after :: "'s outcome \<Rightarrow> 's" where
  "store_after (Normal s) = s"
| "store_after (Thrown e s) = s"

text \<open>
  The states of the parser in which the value that is being read is an object: the
  outermost open container is an object, or the value is complete and is an object.
\<close>

fun object_at_bottom :: "'f frame list \<Rightarrow> bool" where
  "object_at_bottom [] = False"
| "object_at_bottom [in_object m k] = True"
| "object_at_bottom [in_array xs] = False"
| "object_at_bottom (f # g # st) = object_at_bottom (g # st)"

fun parsing_object :: "'f parser_state \<Rightarrow> bool" where
  "parsing_object (expect_value st) = object_at_bottom st"
| "parsing_object (after_begin_array st) = object_at_bottom st"
| "parsing_object (after_begin_object st) = (st = [] \<or> object_at_bottom st)"
| "parsing_object (expect_key m st) = (st = [] \<or> object_at_bottom st)"
| "parsing_object (expect_name_separator m k st) = (st = [] \<or> object_at_bottom st)"
| "parsing_object (after_value f st) = object_at_bottom (f # st)"
| "parsing_object (finished v) = is_object v"

section \<open>Example programs\<close>

text \<open>
  The examples contain no floating point number. They are evaluated with a one-element
  type in the place of \<^verbatim>\<open>double\<close>.
\<close>

definition no_floats :: "unit float_ops" where
  "no_floats =
     \<lparr>strtod = (\<lambda>_. ()), isfinite = (\<lambda>_. True), float_to_chars = (\<lambda>_. ''0.0''),
      float_to_integer = (\<lambda>_. 0)\<rparr>"

text \<open>
  A program with the two variables of the scenario in the specification,
  \<^verbatim>\<open>ConfigVariable_t<int> volume{"volume", 80}\<close> at address 0 and
  \<^verbatim>\<open>ConfigVariable_t<bool> muted{"muted", false}\<close> at address 1, constructed in this order.
  Before the constructors run the registry is empty and the path is the working
  directory of the process; the store has some object at every address.
\<close>

definition at_startup :: "Config \<times> (cpp_value, unit) store" where
  "at_startup =
     (\<lparr>m_path = ''/home/user/app'', m_variables = []\<rparr>, (\<lambda>_. string_variable [] []))"

definition volume_muted :: "Config \<times> (cpp_value, unit) store" where
  "volume_muted =
     ConfigVariable_t_ctor 1 bool_to_json bool_from_json ''muted'' (bool_value False)
       (ConfigVariable_t_ctor 0 int_to_json (int_from_json no_floats) ''volume'' (int_value 80)
          at_startup)"

text \<open>
  Two file systems without the file to load. In the first the base directory exists (or
  can be created); in the second \<^verbatim>\<open>create_directory\<close> fails, as it does when the parent
  of the base directory is missing.
\<close>

definition empty_directory :: "unit filesystem" where
  "empty_directory =
     \<lparr>create_directory = (\<lambda>w p. Inr w), open_ifstream = (\<lambda>w p. None),
      path_append = (\<lambda>p q. p @ ''/'' @ q)\<rparr>"

definition missing_parent :: "unit filesystem" where
  "missing_parent =
     \<lparr>create_directory = (\<lambda>w p. Inl filesystem_error), open_ifstream = (\<lambda>w p. None),
      path_append = (\<lambda>p q. p @ ''/'' @ q)\<rparr>"

section \<open>Evaluation\<close>

lemmas lex_eval = lex.simps parse_def scan_tokens_def is_whitespace_def is_digit_def number_token_def
  decimal_value_def simple_escape_def hex_value_def codepoint_done_def utf8_encode_def char_of_eq_iff

lemmas dump_eval = dump_string_def escape_ascii_def dump_integer_def dump_unsigned.simps
  digit_char_def hex_char_def char_of_eq_iff dump_float_def

lemma volume_muted_eq:
  "volume_muted = (\<lparr>m_path = ''/home/user/app'', m_variables = [0, 1]\<rparr>,
     (\<lambda>_. string_variable [] [])
       (0 := int_variable no_floats ''volume'' 80, 1 := bool_variable ''muted'' False))"
  by (simp add: volume_muted_def at_startup_def ConfigVariable_t_ctor_def add_variable_def
      int_variable_def bool_variable_def)

lemma parse_not_json: \<open>parse F ''not json'' = Inl parse_error\<close>
  by (simp add: lex_eval)

lemma parse_array_123:
  \<open>parse F ''[1,2,3]'' = Inr (Array [Number_unsigned 1, Number_unsigned 2, Number_unsigned 3])\<close>
  by (simp add: lex_eval)

lemma volume_muted_sel:
  "m_variables (fst volume_muted) = [0, 1]"
  "snd volume_muted 0 = int_variable no_floats ''volume'' 80"
  "snd volume_muted (Suc 0) = bool_variable ''muted'' False"
  by (simp_all add: volume_muted_eq)

lemma parse_volume_50:
  \<open>parse F ''{"volume":50}'' = Inr (Object [(''volume'', Number_unsigned 50)])\<close>
  by (simp add: lex_eval)

lemma parse_pair_volume_x:
  \<open>parse F ''["volume","x"]'' = Inr (Array [String ''volume'', String ''x''])\<close>
  by (simp add: lex_eval)

lemma parse_pair_volume_50:
  \<open>parse F ''["volume",50]'' = Inr (Array [String ''volume'', Number_unsigned 50])\<close>
  by (simp add: lex_eval)

lemma parse_volume_7_muted_3:
  \<open>parse F ''{"volume":7,"muted":3}''
     = Inr (Object [(''muted'', Number_unsigned 3), (''volume'', Number_unsigned 7)])\<close>
  by (simp add: lex_eval)

section \<open>The loop of \<^verbatim>\<open>Config::set\<close>\<close>

lemma after_load_sel [simp]:
  "m_key (after_load x object) = m_key x"
  "from_json (after_load x object) = from_json x"
  "to_json (after_load x object) = to_json x"
  by (simp_all add: after_load_def split: option.split sum.split)

lemma after_load_idem [simp]: "after_load (after_load x object) object = after_load x object"
  by (simp add: after_load_def split: option.split sum.split)

lemma convertible_after_load [simp]:
  "convertible (after_load x object) object' = convertible x object'"
  by (simp add: convertible_def split: option.split)

lemma load_convertible:
  "convertible x object \<Longrightarrow> ConfigVariable_t_load x object = Inr (after_load x object)"
  by (simp add: convertible_def ConfigVariable_t_load_def after_load_def
      split: option.splits sum.splits)

lemma load_not_convertible:
  "json_find object (m_key x) = Some j \<Longrightarrow> from_json x j = Inl e \<Longrightarrow>
   ConfigVariable_t_load x object = Inl e"
  by (simp add: ConfigVariable_t_load_def)

lemma load_all_Normal:
  "\<forall>a \<in> set vs. convertible (h a) object \<Longrightarrow>
   load_all object vs h = Normal (\<lambda>a. if a \<in> set vs then after_load (h a) object else h a)"
proof (induction vs arbitrary: h)
  case Nil
  show ?case by simp
next
  case (Cons a vs)
  let ?h = "h(a := after_load (h a) object)"
  have conv: "\<forall>b \<in> set vs. convertible (?h b) object"
    using Cons.prems by simp
  have "load_all object (a # vs) h = load_all object vs ?h"
    using Cons.prems by (simp add: load_convertible)
  also have "\<dots> = Normal (\<lambda>b. if b \<in> set vs then after_load (?h b) object else ?h b)"
    by (rule Cons.IH [OF conv])
  also have "(\<lambda>b. if b \<in> set vs then after_load (?h b) object else ?h b)
      = (\<lambda>b. if b \<in> set (a # vs) then after_load (h b) object else h b)"
    by (rule ext) simp
  finally show ?case .
qed

lemma load_all_append:
  "load_all object (xs @ ys) h =
     (case load_all object xs h of
        Normal h' \<Rightarrow> load_all object ys h'
      | Thrown e h' \<Rightarrow> Thrown e h')"
  by (induction xs arbitrary: h) (simp_all split: sum.split)

lemma load_all_Thrown:
  assumes pre: "\<forall>a \<in> set pre. convertible (h a) object"
    and f: "json_find object (m_key (h a)) = Some j" and e: "from_json (h a) j = Inl e"
  shows "load_all object (pre @ a # post) h =
     Thrown e (\<lambda>b. if b \<in> set pre then after_load (h b) object else h b)"
proof -
  let ?h = "\<lambda>b. if b \<in> set pre then after_load (h b) object else h b"
  have "json_find object (m_key (?h a)) = Some j" "from_json (?h a) j = Inl e"
    using f e by simp_all
  then have "ConfigVariable_t_load (?h a) object = Inl e"
    by (rule load_not_convertible)
  then show ?thesis
    by (simp add: load_all_append load_all_Normal [OF pre])
qed

lemma json_find_is_object: "json_find object k = Some j \<Longrightarrow> is_object object"
  by (cases object) simp_all

lemma load_Inr:
  "ConfigVariable_t_load x object = Inr y \<Longrightarrow> convertible x object \<and> y = after_load x object"
  by (auto simp add: ConfigVariable_t_load_def convertible_def after_load_def
      split: option.splits sum.splits)

lemma load_all_throws:
  "a \<in> set vs \<Longrightarrow> \<not> convertible (h a) object \<Longrightarrow> \<exists>e h'. load_all object vs h = Thrown e h'"
proof (induction vs arbitrary: h)
  case Nil
  then show ?case by simp
next
  case (Cons b vs)
  show ?case
  proof (cases "ConfigVariable_t_load (h b) object")
    case (Inl e)
    then show ?thesis by simp
  next
    case (Inr y)
    then have b: "convertible (h b) object" and y: "y = after_load (h b) object"
      using load_Inr by blast+
    from b Cons.prems have "a \<noteq> b" by auto
    with Cons.prems have "a \<in> set vs" "\<not> convertible ((h(b := y)) a) object"
      by simp_all
    then have "\<exists>e h'. load_all object vs (h(b := y)) = Thrown e h'"
      by (rule Cons.IH)
    with Inr show ?thesis by simp
  qed
qed

lemma not_convertible: 
  "json_find object (m_key x) = Some j \<Longrightarrow> from_json x j = Inl e \<Longrightarrow> \<not> convertible x object"
  by (simp add: convertible_def)

section \<open>The loop of \<^verbatim>\<open>Config::get\<close>\<close>

lemma map_assign_keys: "fst ` set (map_assign k v m) = insert k (fst ` set m)"
  by (induction k v m rule: map_assign.induct) (simp_all add: insert_commute)

lemma map_assign_sorted:
  "sorted_wrt (<) (map fst m) \<Longrightarrow> sorted_wrt (<) (map fst (map_assign k v m))"
proof (induction m)
  case Nil
  show ?case by simp
next
  case (Cons p m)
  obtain k' v' where p: "p = (k', v')" by (cases p)
  from Cons.prems p have k': "\<forall>x \<in> fst ` set m. k' < x" and m: "sorted_wrt (<) (map fst m)"
    by simp_all
  show ?case
  proof (cases "k < k'")
    case True
    with k' have "\<forall>x \<in> fst ` set m. k < x" by auto
    with True Cons.prems p show ?thesis by simp
  next
    case False
    show ?thesis
    proof (cases "k = k'")
      case True
      with Cons.prems p show ?thesis by simp
    next
      case neq: False
      with False have "k' < k" by simp
      with k' have "\<forall>x \<in> fst ` set (map_assign k v m). k' < x"
        unfolding map_assign_keys by simp
      with False neq p Cons.IH [OF m] show ?thesis by simp
    qed
  qed
qed

lemma map_find_map_assign:
  "map_find (map_assign k v m) k' = (if k' = k then Some v else map_find m k')"
  by (induction m) auto

lemma save_all_Object: "save_all h vs (Object m) = Inr (Object (saved_entries h vs m))"
  by (induction vs arbitrary: m) (simp_all add: ConfigVariable_t_save_def)

lemma save_all_Null:
  "save_all h vs Null = Inr (if vs = [] then Null else Object (saved_entries h vs []))"
  by (cases vs) (simp_all add: ConfigVariable_t_save_def save_all_Object)

lemma get_document_entries:
  "\<exists>doc. get_document this h = Inr doc \<and> entries doc = saved_entries h (m_variables this) [] \<and>
     is_object doc = (m_variables this \<noteq> [])"
  by (simp add: get_document_def save_all_Null)

lemma saved_entries_keys:
  "fst ` set (saved_entries h vs m) = fst ` set m \<union> (\<lambda>a. m_key (h a)) ` set vs"
  by (induction vs arbitrary: m) (simp_all add: map_assign_keys)

lemma saved_entries_sorted:
  "sorted_wrt (<) (map fst m) \<Longrightarrow> sorted_wrt (<) (map fst (saved_entries h vs m))"
  by (induction vs arbitrary: m) (simp_all add: map_assign_sorted)

lemma saved_entries_other:
  "k \<notin> (\<lambda>a. m_key (h a)) ` set vs \<Longrightarrow> map_find (saved_entries h vs m) k = map_find m k"
  by (induction vs arbitrary: m) (auto simp add: map_find_map_assign)

lemma saved_entries_find:
  "distinct (map (\<lambda>a. m_key (h a)) vs) \<Longrightarrow> a \<in> set vs \<Longrightarrow>
   map_find (saved_entries h vs m) (m_key (h a)) = Some (to_json (h a) (m_value (h a)))"
proof (induction vs arbitrary: m)
  case Nil
  then show ?case by simp
next
  case (Cons b vs)
  show ?case
  proof (cases "a = b")
    case True
    with Cons.prems have "m_key (h a) \<notin> (\<lambda>a. m_key (h a)) ` set vs"
      by auto
    then show ?thesis
      using True by (simp add: saved_entries_other map_find_map_assign)
  next
    case False
    with Cons show ?thesis by simp
  qed
qed

lemma saved_entries_keys_list:
  "map fst (saved_entries h vs []) = sorted_list_of_set ((\<lambda>a. m_key (h a)) ` set vs)"
proof -
  have "sorted_wrt (<) (map fst (saved_entries h vs []))"
    by (rule saved_entries_sorted) simp
  then have "sorted (map fst (saved_entries h vs []))" "distinct (map fst (saved_entries h vs []))"
    by (simp_all add: strict_sorted_iff)
  then have "sorted_list_of_set (set (map fst (saved_entries h vs []))) = map fst (saved_entries h vs [])"
    by (rule sorted_list_of_set.idem_if_sorted_distinct)
  then show ?thesis
    by (simp add: saved_entries_keys)
qed

lemma dump_members_text:
  "dump_members F m = Inr r \<Longrightarrow> \<exists>ts. list_all2 (member_text F) m ts \<and> r = separated ts"
proof (induction m arbitrary: r rule: induct_list012)
  case 1
  then show ?case by simp
next
  case (2 kv)
  obtain k v where kv: "kv = (k, v)" by (cases kv)
  from 2 kv obtain q r' where "dump_string k = Inr q" "dump F v = Inr r'" "r = q @ CHR '':'' # r'"
    by (auto split: sum.splits)
  then have "list_all2 (member_text F) [kv] [r] \<and> r = separated [r]"
    using kv by (simp add: member_text_def)
  then show ?case by blast
next
  case (3 kv kv' m)
  obtain k v where kv: "kv = (k, v)" by (cases kv)
  from 3(3) kv obtain q r' rs where q: "dump_string k = Inr q" "dump F v = Inr r'"
    and rs: "dump_members F (kv' # m) = Inr rs" and r: "r = q @ CHR '':'' # r' @ CHR '','' # rs"
    by (auto split: sum.splits)
  from 3(2) [OF rs] obtain ts where ts: "list_all2 (member_text F) (kv' # m) ts" "rs = separated ts"
    by blast
  then obtain t ts' where t: "ts = t # ts'"
    by (cases ts) auto
  have "list_all2 (member_text F) (kv # kv' # m) ((q @ CHR '':'' # r') # ts)"
    using ts q kv by (simp add: member_text_def)
  moreover have "r = separated ((q @ CHR '':'' # r') # ts)"
    using r ts t by simp
  ultimately show ?case by blast
qed

lemma get_document_volume_muted:
  "get_document (fst volume_muted) (snd volume_muted)
     = Inr (Object [(''muted'', Boolean False), (''volume'', Number_integer 80)])"
  by (simp add: get_document_def volume_muted_sel ConfigVariable_t_save_def int_variable_def
      bool_variable_def)

lemma get_volume_muted:
  \<open>Config_get no_floats (fst volume_muted) (snd volume_muted) = Inr ''{"muted":false,"volume":80}''\<close>
  by (simp add: Config_get_def get_document_volume_muted dump_eval)

lemma volume_muted_keys:
  "sorted_list_of_set ((\<lambda>a. m_key (snd volume_muted a)) ` set (m_variables (fst volume_muted)))
     = [''muted'', ''volume'']"
  unfolding saved_entries_keys_list [symmetric]
  by (simp add: volume_muted_sel int_variable_def bool_variable_def)

section \<open>The text of a document, parsed again\<close>

lemma scan_number_next_end:
  "c = CHR '','' \<or> c = CHR '']'' \<or> c = CHR ''}'' \<Longrightarrow> scan_number_next ns c = None"
  by (cases ns) (auto simp add: is_digit_def)

lemma lex_number_end:
  "ends_value rest \<Longrightarrow> scan_number_done ns \<Longrightarrow>
   lex F (scan_number ns buf) rest = number_token F ns buf # lex F scan rest"
  by (cases rest) (simp_all add: ends_value_def scan_number_next_end del: lex.simps(2))

lemma lex_scan_number_all:
  "scan_number_all ns cs = Some ns' \<Longrightarrow> scan_number_done ns' \<Longrightarrow> ends_value rest \<Longrightarrow>
   lex F (scan_number ns buf) (cs @ rest) = number_token F ns' (buf @ cs) # lex F scan rest"
proof (induction cs arbitrary: ns buf)
  case Nil
  then show ?case by (simp add: lex_number_end)
next
  case (Cons c cs)
  then obtain ns1 where n: "scan_number_next ns c = Some ns1" "scan_number_all ns1 cs = Some ns'"
    by (auto split: option.splits)
  from Cons.IH [OF n(2) Cons.prems(2,3), of "buf @ [c]"] n(1)
  show ?case by simp
qed

lemma digit_not_special:
  assumes "is_digit c"
  shows "\<not> is_whitespace c" "c \<noteq> CHR ''[''" "c \<noteq> CHR '']''" "c \<noteq> CHR ''{''" "c \<noteq> CHR ''}''"
    "c \<noteq> CHR '':''" "c \<noteq> CHR '',''" "c \<noteq> CHR ''t''" "c \<noteq> CHR ''f''" "c \<noteq> CHR ''n''"
    "c \<noteq> CHR 0x22" "c \<noteq> CHR ''-''"
  using assms by (auto simp add: is_digit_def is_whitespace_def)

lemma lex_number_start:
  assumes "number_start c = Some ns"
  shows "lex F scan (c # cs) = lex F (scan_number ns [c]) cs"
proof (cases "c = CHR ''-''")
  case True
  with assms show ?thesis by (simp add: number_start_def is_whitespace_def)
next
  case False
  with assms have d: "is_digit c"
    by (auto simp add: number_start_def is_digit_def split: if_splits)
  show ?thesis
    using assms False by (simp add: digit_not_special [OF d] number_start_def d split: if_splits)
qed

lemma lex_number_text:
  "number_text s = Some ns \<Longrightarrow> scan_number_done ns \<Longrightarrow> ends_value rest \<Longrightarrow>
   lex F scan (s @ rest) = number_token F ns s # lex F scan rest"
proof (cases s)
  case Nil
  assume "number_text s = Some ns"
  with Nil show ?thesis by (simp add: number_text_def)
next
  case (Cons c cs)
  assume a: "number_text s = Some ns" "scan_number_done ns" "ends_value rest"
  with Cons obtain ns0 where s: "number_start c = Some ns0" "scan_number_all ns0 cs = Some ns"
    by (auto simp add: number_text_def split: option.splits)
  show ?thesis
    using lex_number_start [OF s(1), of F "cs @ rest"]
      lex_scan_number_all [OF s(2) a(2,3), of F "[c]"] Cons
    by simp
qed

lemma of_char_digit_char: "d < 10 \<Longrightarrow> (of_char (digit_char d) :: nat) = 0x30 + d"
  by (simp add: digit_char_def)

lemma is_digit_digit_char: "d < 10 \<Longrightarrow> is_digit (digit_char d)"
  by (simp add: is_digit_def of_char_digit_char)

lemma digit_char_zero: "d < 10 \<Longrightarrow> digit_char d = CHR ''0'' \<longleftrightarrow> d = 0"
proof -
  assume d: "d < 10"
  have "digit_char d = CHR ''0'' \<longleftrightarrow> (of_char (digit_char d) :: nat) = of_char (CHR ''0'')"
    by (simp only: of_char_eq_iff)
  also have "\<dots> \<longleftrightarrow> d = 0"
    using d by (simp add: of_char_digit_char)
  finally show ?thesis .
qed

lemma scan_number_all_digits:
  "\<forall>c \<in> set ds. is_digit c \<Longrightarrow> scan_number_all ns_any1 ds = Some ns_any1"
  by (induction ds) simp_all

lemma decimal_value_snoc:
  "decimal_value (ds @ [c]) = 10 * decimal_value ds + (of_char c - 0x30)"
  by (simp add: decimal_value_def)

lemma dump_unsigned_digits: "\<forall>c \<in> set (dump_unsigned n). is_digit c"
proof (induction n rule: dump_unsigned.induct)
  case (1 n)
  show ?case
  proof (cases "n < 10")
    case True
    then show ?thesis by (simp add: dump_unsigned.simps [of n] is_digit_digit_char)
  next
    case False
    with 1 show ?thesis by (simp add: dump_unsigned.simps [of n] is_digit_digit_char)
  qed
qed

lemma decimal_value_dump_unsigned: "decimal_value (dump_unsigned n) = n"
proof (induction n rule: dump_unsigned.induct)
  case (1 n)
  show ?case
  proof (cases "n < 10")
    case True
    then show ?thesis
      by (simp add: dump_unsigned.simps [of n] decimal_value_def of_char_digit_char)
  next
    case False
    with 1 show ?thesis
      by (simp add: dump_unsigned.simps [of n] decimal_value_snoc of_char_digit_char)
  qed
qed

lemma dump_unsigned_zero: "dump_unsigned 0 = ''0''"
  by (simp add: dump_unsigned.simps digit_char_def char_of_eq_iff)

lemma dump_unsigned_head:
  "0 < n \<Longrightarrow> \<exists>c cs. dump_unsigned n = c # cs \<and> is_digit c \<and> c \<noteq> CHR ''0''"
proof (induction n rule: dump_unsigned.induct)
  case (1 n)
  show ?case
  proof (cases "n < 10")
    case True
    with 1(2) show ?thesis
      by (simp add: dump_unsigned.simps [of n] is_digit_digit_char digit_char_zero)
  next
    case False
    then have "0 < n div 10" by simp
    with 1(1) False obtain c cs where "dump_unsigned (n div 10) = c # cs" "is_digit c" "c \<noteq> CHR ''0''"
      by blast
    with False show ?thesis
      by (simp add: dump_unsigned.simps [of n])
  qed
qed

lemma number_text_dump_unsigned:
  "number_text (dump_unsigned n) = Some (if n = 0 then ns_zero else ns_any1)"
proof (cases "n = 0")
  case True
  then show ?thesis
    by (simp add: dump_unsigned_zero number_text_def number_start_def)
next
  case False
  then obtain c cs where c: "dump_unsigned n = c # cs" "is_digit c" "c \<noteq> CHR ''0''"
    using dump_unsigned_head [of n] by auto
  have "\<forall>x \<in> set cs. is_digit x"
    using dump_unsigned_digits [of n] c(1) by simp
  with c False show ?thesis
    by (auto simp add: number_text_def number_start_def digit_not_special scan_number_all_digits)
qed

lemma number_text_minus_dump_unsigned:
  "0 < n \<Longrightarrow> number_text (CHR ''-'' # dump_unsigned n) = Some ns_any1"
proof -
  assume "0 < n"
  then obtain c cs where c: "dump_unsigned n = c # cs" "is_digit c" "c \<noteq> CHR ''0''"
    using dump_unsigned_head [of n] by auto
  have "\<forall>x \<in> set cs. is_digit x"
    using dump_unsigned_digits [of n] c(1) by simp
  with c show ?thesis
    by (simp add: number_text_def number_start_def scan_number_all_digits)
qed

lemma dump_unsigned_not_minus: "\<exists>c cs. dump_unsigned n = c # cs \<and> c \<noteq> CHR ''-''"
proof (cases "n = 0")
  case True
  then show ?thesis by (simp add: dump_unsigned_zero)
next
  case False
  then show ?thesis
    using dump_unsigned_head [of n] by (auto simp add: digit_not_special)
qed

lemma number_token_unsigned:
  "n < 2 ^ 64 \<Longrightarrow>
   number_token F (if n = 0 then ns_zero else ns_any1) (dump_unsigned n) = t_value_unsigned (word_of_nat n)"
proof -
  assume n: "n < 2 ^ 64"
  obtain c cs where c: "dump_unsigned n = c # cs" "c \<noteq> CHR ''-''"
    using dump_unsigned_not_minus by blast
  have "decimal_value (c # cs) = n"
    using decimal_value_dump_unsigned [of n] c(1) by simp
  with n c show ?thesis
    by (simp add: number_token_def)
qed

lemma number_token_negative:
  "n \<le> 2 ^ 63 \<Longrightarrow>
   number_token F ns_any1 (CHR ''-'' # dump_unsigned n) = t_value_integer (word_of_int (- int n))"
  by (simp add: number_token_def decimal_value_dump_unsigned)

lemma lex_dump_unsigned:
  "n < 2 ^ 64 \<Longrightarrow> ends_value rest \<Longrightarrow>
   lex F scan (dump_unsigned n @ rest) = t_value_unsigned (word_of_nat n) # lex F scan rest"
  using lex_number_text [OF number_text_dump_unsigned, of n rest F] number_token_unsigned [of n F]
  by (simp split: if_splits)

lemma lex_dump_negative:
  "0 < n \<Longrightarrow> n \<le> 2 ^ 63 \<Longrightarrow> ends_value rest \<Longrightarrow>
   lex F scan ((CHR ''-'' # dump_unsigned n) @ rest)
     = t_value_integer (word_of_int (- int n)) # lex F scan rest"
  using lex_number_text [OF number_text_minus_dump_unsigned, of n rest F]
    number_token_negative [of n F]
  by simp

lemma lex_dump_unsigned_word:
  fixes u :: "64 word"
  shows "ends_value rest \<Longrightarrow>
    lex F scan (dump_unsigned (unat u) @ rest) = t_value_unsigned u # lex F scan rest"
proof -
  assume r: "ends_value rest"
  have "unat u < 2 ^ 64"
    using unsigned_less [of u, where 'a = nat] by simp
  from lex_dump_unsigned [OF this r, of F] show ?thesis
    by simp
qed

lemma lex_dump_integer_word:
  fixes i :: "64 word"
  shows "ends_value rest \<Longrightarrow>
    lex F scan (dump_integer (sint i) @ rest)
      = (if sint i < 0 then t_value_integer i else t_value_unsigned i) # lex F scan rest"
proof (cases "sint i < 0")
  case True
  assume r: "ends_value rest"
  have "- (2 ^ 63) \<le> sint i"
    using sint_ge [of i] by simp
  with True have n: "0 < nat (- sint i)" "nat (- sint i) \<le> 2 ^ 63"
    by simp_all
  have "word_of_int (- int (nat (- sint i))) = i"
    using True by simp
  with lex_dump_negative [OF n r, of F] True show ?thesis
    by (simp add: dump_integer_def)
next
  case False
  assume r: "ends_value rest"
  have "sint i < 2 ^ 63"
    using sint_lt [of i] by simp
  with False have n: "nat (sint i) < 2 ^ 64"
    by simp
  have "word_of_nat (nat (sint i)) = i"
    using False by (simp add: of_nat_nat)
  with lex_dump_unsigned [OF n r, of F] False show ?thesis
    by (simp add: dump_integer_def)
qed

lemma hex_value_hex_char: "d < 16 \<Longrightarrow> hex_value (hex_char d) = Some d"
  by (simp add: hex_value_def hex_char_def Let_def)

lemma of_char_eq_numeral:
  "(of_char c :: nat) = 0x08 \<longleftrightarrow> c = CHR 0x08"
  "(of_char c :: nat) = 0x09 \<longleftrightarrow> c = CHR 0x09"
  "(of_char c :: nat) = 0x0A \<longleftrightarrow> c = CHR 0x0A"
  "(of_char c :: nat) = 0x0C \<longleftrightarrow> c = CHR 0x0C"
  "(of_char c :: nat) = 0x0D \<longleftrightarrow> c = CHR 0x0D"
  "(of_char c :: nat) = 0x22 \<longleftrightarrow> c = CHR 0x22"
  "(of_char c :: nat) = 0x5C \<longleftrightarrow> c = CHR 0x5C"
  using of_char_eq_iff [of c "CHR 0x08", where 'a = nat]
    of_char_eq_iff [of c "CHR 0x09", where 'a = nat]
    of_char_eq_iff [of c "CHR 0x0A", where 'a = nat]
    of_char_eq_iff [of c "CHR 0x0C", where 'a = nat]
    of_char_eq_iff [of c "CHR 0x0D", where 'a = nat]
    of_char_eq_iff [of c "CHR 0x22", where 'a = nat]
    of_char_eq_iff [of c "CHR 0x5C", where 'a = nat]
  by simp_all

lemma lex_unicode_escape:
  assumes "(of_char c :: nat) \<le> 0x1F"
  shows "lex F (scan_string utf8_accept buf)
      (CHR 0x5C # CHR ''u'' # CHR ''0'' # CHR ''0'' # hex_char (of_char c div 16) # hex_char (of_char c mod 16) # rest)
    = lex F (scan_string utf8_accept (buf @ [c])) rest"
proof -
  let ?b = "of_char c :: nat"
  have hi: "hex_value (hex_char (?b div 16)) = Some (?b div 16)"
    using assms by (intro hex_value_hex_char) simp
  have lo: "hex_value (hex_char (?b mod 16)) = Some (?b mod 16)"
    by (intro hex_value_hex_char) simp
  have z: "hex_value (CHR ''0'') = Some 0"
    by (simp add: hex_value_def)
  have fin: "codepoint_done buf None ?b
      = Some (scan_string utf8_accept (buf @ [c]) :: 'a lexer_state)"
    using assms by (simp add: codepoint_done_def utf8_encode_def)
  show ?thesis
    by (simp add: hi lo z fin)
qed

lemma lex_escape_ascii:
  assumes "(of_char c :: nat) < 0x80"
  shows "lex F (scan_string utf8_accept buf) (escape_ascii c @ rest)
    = lex F (scan_string utf8_accept (buf @ [c])) rest"
proof -
  consider (short) "c = CHR 0x08 \<or> c = CHR 0x09 \<or> c = CHR 0x0A \<or> c = CHR 0x0C \<or> c = CHR 0x0D
        \<or> c = CHR 0x22 \<or> c = CHR 0x5C"
    | (control) "c \<noteq> CHR 0x08" "c \<noteq> CHR 0x09" "c \<noteq> CHR 0x0A" "c \<noteq> CHR 0x0C" "c \<noteq> CHR 0x0D"
        "c \<noteq> CHR 0x22" "c \<noteq> CHR 0x5C" "(of_char c :: nat) \<le> 0x1F"
    | (plain) "c \<noteq> CHR 0x08" "c \<noteq> CHR 0x09" "c \<noteq> CHR 0x0A" "c \<noteq> CHR 0x0C" "c \<noteq> CHR 0x0D"
        "c \<noteq> CHR 0x22" "c \<noteq> CHR 0x5C" "\<not> (of_char c :: nat) \<le> 0x1F"
    by blast
  then show ?thesis
  proof cases
    case short
    then show ?thesis
      by (elim disjE) (simp_all add: escape_ascii_def simple_escape_def)
  next
    case control
    then have "escape_ascii c = [CHR 0x5C, CHR ''u'', CHR ''0'', CHR ''0'',
        hex_char (of_char c div 16), hex_char (of_char c mod 16)]"
      by (simp add: escape_ascii_def Let_def of_char_eq_numeral)
    then show ?thesis
      using lex_unicode_escape [OF control(8)] by simp
  next
    case plain
    then have "escape_ascii c = [c]"
      by (simp add: escape_ascii_def Let_def of_char_eq_numeral)
    then show ?thesis
      using plain assms by simp
  qed
qed

lemma utf8_decode_accept_accept:
  "utf8_decode utf8_accept b = utf8_accept \<longleftrightarrow> b < 0x80"
  by simp

lemma utf8_decode_to_accept:
  "utf8_decode u b = utf8_accept \<Longrightarrow> u \<noteq> utf8_accept \<Longrightarrow> 0x80 \<le> b"
  by (cases u) (simp_all split: if_splits)

lemma lex_multibyte:
  assumes "utf8_decode u (of_char c) \<noteq> utf8_reject"
    and "\<not> (u = utf8_accept \<and> utf8_decode u (of_char c) = utf8_accept)"
  shows "lex F (scan_string u buf) (c # rest)
    = lex F (scan_string (utf8_decode u (of_char c)) (buf @ [c])) rest"
proof (cases "u = utf8_accept")
  case True
  with assms have "0x80 \<le> (of_char c :: nat)"
    using utf8_decode_accept_accept [of "of_char c"] by (simp del: utf8_decode.simps)
  then have "c \<noteq> CHR 0x22" "c \<noteq> CHR 0x5C" "\<not> (of_char c :: nat) < 0x20"
    by auto
  with assms(1) show ?thesis
    by simp
next
  case False
  with assms(1) show ?thesis
    by simp
qed

lemma lex_dump_escaped:
  "dump_escaped u s = Inr r \<Longrightarrow>
   lex F (scan_string u buf) (r @ CHR 0x22 # rest) = t_value_string (buf @ s) # lex F scan rest"
proof (induction s arbitrary: u buf r)
  case Nil
  then show ?case by (simp split: if_splits)
next
  case (Cons c cs)
  define u' where "u' = utf8_decode u (of_char c)"
  from Cons.prems obtain r' where ok: "u' \<noteq> utf8_reject" and r': "dump_escaped u' cs = Inr r'"
    and r: "r = (if u = utf8_accept \<and> u' = utf8_accept then escape_ascii c else [c]) @ r'"
    unfolding u'_def by (auto simp add: Let_def simp del: utf8_decode.simps split: if_splits sum.splits)
  have IH: "lex F (scan_string u' (buf @ [c])) (r' @ CHR 0x22 # rest)
      = t_value_string (buf @ c # cs) # lex F scan rest"
    using Cons.IH [OF r', of "buf @ [c]"] by simp
  show ?case
  proof (cases "u = utf8_accept \<and> u' = utf8_accept")
    case True
    then have "(of_char c :: nat) < 0x80"
      using utf8_decode_accept_accept [of "of_char c"] unfolding u'_def by blast
    then have "lex F (scan_string utf8_accept buf) (escape_ascii c @ r' @ CHR 0x22 # rest)
        = lex F (scan_string utf8_accept (buf @ [c])) (r' @ CHR 0x22 # rest)"
      by (rule lex_escape_ascii)
    moreover from True r have "r = escape_ascii c @ r'" "u = utf8_accept" "u' = utf8_accept"
      by auto
    ultimately show ?thesis
      using IH by (simp del: lex.simps utf8_decode.simps)
  next
    case False
    have "lex F (scan_string u buf) (c # r' @ CHR 0x22 # rest)
        = lex F (scan_string u' (buf @ [c])) (r' @ CHR 0x22 # rest)"
      unfolding u'_def by (rule lex_multibyte) (use ok False in \<open>simp_all add: u'_def del: utf8_decode.simps\<close>)
    moreover from False r have "r = c # r'"
      by auto
    ultimately show ?thesis
      using IH by (simp del: lex.simps utf8_decode.simps)
  qed
qed

lemma lex_dump_string:
  "dump_string s = Inr q \<Longrightarrow> lex F scan (q @ rest) = t_value_string s # lex F scan rest"
proof -
  assume "dump_string s = Inr q"
  then obtain r where r: "dump_escaped utf8_accept s = Inr r" and q: "q = CHR 0x22 # r @ [CHR 0x22]"
    by (auto simp add: dump_string_def split: sum.splits)
  from lex_dump_escaped [OF r, of F "[]" rest] q show ?thesis
    by (simp add: is_whitespace_def)
qed

lemma ends_value_simps [simp]:
  "ends_value []"
  "ends_value (CHR '','' # cs)"
  "ends_value (CHR '']'' # cs)"
  "ends_value (CHR ''}'' # cs)"
  by (simp_all add: ends_value_def)

lemma lex_structural:
  "lex F scan (CHR ''['' # cs) = t_begin_array # lex F scan cs"
  "lex F scan (CHR '']'' # cs) = t_end_array # lex F scan cs"
  "lex F scan (CHR ''{'' # cs) = t_begin_object # lex F scan cs"
  "lex F scan (CHR ''}'' # cs) = t_end_object # lex F scan cs"
  "lex F scan (CHR '':'' # cs) = t_name_separator # lex F scan cs"
  "lex F scan (CHR '','' # cs) = t_value_separator # lex F scan cs"
  by (simp_all add: is_whitespace_def)

lemma lex_literals:
  "lex F scan (''null'' @ cs) = t_literal_null # lex F scan cs"
  "lex F scan (''true'' @ cs) = t_literal_true # lex F scan cs"
  "lex F scan (''false'' @ cs) = t_literal_false # lex F scan cs"
  by (simp_all add: is_whitespace_def)

lemma lex_dump_float:
  assumes "float_round_trip F x" "ends_value rest"
  shows "lex F scan (dump_float F x @ rest) = t_value_float x # lex F scan rest"
proof -
  from assms(1) obtain ns where ns: "number_text (float_to_chars F x) = Some ns"
    "ns = ns_decimal2 \<or> ns = ns_any2" and x: "strtod F (float_to_chars F x) = x" "isfinite F x"
    by (auto simp add: float_round_trip_def)
  from ns(2) have d: "scan_number_done ns" by auto
  from ns(2) x have "number_token F ns (float_to_chars F x) = t_value_float x"
    by (auto simp add: number_token_def)
  with lex_number_text [OF ns(1) d assms(2), of F] x(2) show ?thesis
    by (simp add: dump_float_def)
qed

declare lex.simps [simp del]

lemma lex_dump:
  fixes F :: "'f float_ops"
  shows "dump F j = Inr s \<Longrightarrow> reparsable F j \<Longrightarrow> ends_value rest \<Longrightarrow>
      lex F scan (s @ rest) = tokens_of j @ lex F scan rest"
    and "dump_elements F xs = Inr s \<Longrightarrow> reparsable_elements F xs \<Longrightarrow> ends_value rest \<Longrightarrow>
      lex F scan (s @ rest) = element_tokens xs @ lex F scan rest"
    and "dump_members F m = Inr s \<Longrightarrow> reparsable_members F m \<Longrightarrow> ends_value rest \<Longrightarrow>
      lex F scan (s @ rest) = member_tokens m @ lex F scan rest"
proof (induction F j and F xs and F m arbitrary: s rest and s rest and s rest
    rule: dump_dump_elements_dump_members.induct)
  case (1 F)
  then show ?case using lex_literals(1) [of F rest] by simp
next
  case (2 F b)
  then show ?case using lex_literals(2,3) [of F rest] by (cases b) simp_all
next
  case (3 F i)
  then show ?case using lex_dump_integer_word [of rest F i] by simp
next
  case (4 F u)
  then show ?case using lex_dump_unsigned_word [of rest F u] by simp
next
  case (5 F x)
  then show ?case using lex_dump_float [of F x rest] by simp
next
  case (6 F s')
  then show ?case using lex_dump_string [of s' s F rest] by simp
next
  case (7 F xs)
  from 7(2) obtain r where r: "dump_elements F xs = Inr r" and s: "s = CHR ''['' # r @ '']''"
    by (auto split: sum.splits)
  from 7(1) [OF r, of "CHR '']'' # rest"] 7(3) s show ?case
    by (simp add: lex_structural)
next
  case (8 F m)
  from 8(2) obtain r where r: "dump_members F m = Inr r" and s: "s = CHR ''{'' # r @ ''}''"
    by (auto split: sum.splits)
  from 8(1) [OF r, of "CHR ''}'' # rest"] 8(3) s show ?case
    by (simp add: lex_structural)
next
  case (9 F)
  then show ?case by simp
next
  case (10 F x)
  then show ?case by simp
next
  case (11 F x y xs)
  from 11(3) obtain r rs where r: "dump F x = Inr r" and rs: "dump_elements F (y # xs) = Inr rs"
    and s: "s = r @ CHR '','' # rs"
    by (auto split: sum.splits)
  from 11(1) [OF r, of "CHR '','' # rs @ rest"] 11(2) [OF r rs, of rest] 11(4,5) s show ?case
    by (simp add: lex_structural)
next
  case (12 F)
  then show ?case by simp
next
  case (13 F k v)
  from 13(2) obtain q r where q: "dump_string k = Inr q" and r: "dump F v = Inr r"
    and s: "s = q @ CHR '':'' # r"
    by (auto split: sum.splits)
  from lex_dump_string [OF q, of F "CHR '':'' # r @ rest"] 13(1) [OF q r, of rest] 13(3,4) s
  show ?case
    by (simp add: lex_structural)
next
  case (14 F k v kv m)
  from 14(3) obtain q r rs where q: "dump_string k = Inr q" and r: "dump F v = Inr r"
    and rs: "dump_members F (kv # m) = Inr rs" and s: "s = q @ CHR '':'' # r @ CHR '','' # rs"
    by (auto split: sum.splits)
  from lex_dump_string [OF q, of F "CHR '':'' # r @ CHR '','' # rs @ rest"]
    14(1) [OF q r, of "CHR '','' # rs @ rest"] 14(2) [OF q r rs, of rest] 14(4,5) s
  show ?case
    by (simp add: lex_structural)
qed

lemma map_assign_append:
  "sorted_wrt (<) (map fst m @ [k]) \<Longrightarrow> map_assign k v m = m @ [(k, v)]"
proof (induction m)
  case Nil
  show ?case by simp
next
  case (Cons p m)
  obtain k' v' where p: "p = (k', v')" by (cases p)
  from Cons.prems p have "k' < k" "sorted_wrt (<) (map fst m @ [k])"
    by (simp_all add: sorted_wrt_append)
  with Cons.IH p show ?case by auto
qed

lemma map_fst_reparsed_members [simp]: "map fst (reparsed_members m) = map fst m"
  by (induction m) auto

lemma tokens_of_first:
  "\<exists>t ts. tokens_of j = t # ts \<and> t \<noteq> t_end_array \<and>
     parser_step F (after_begin_array st) t = parser_step F (expect_value (in_array [] # st)) t"
  by (cases j) auto

lemma element_tokens_first:
  "xs \<noteq> [] \<Longrightarrow> \<exists>t ts. element_tokens xs = t # ts \<and>
     parser_step F (after_begin_array st) t = parser_step F (expect_value (in_array [] # st)) t"
proof -
  assume "xs \<noteq> []"
  then obtain x ys where xs: "xs = x # ys" by (cases xs) auto
  from tokens_of_first [of x F st] show ?thesis
    unfolding xs by (cases ys) auto
qed

lemma sax_parse_first_element:
  assumes "xs \<noteq> []"
  shows "sax_parse F (after_begin_array st) (element_tokens xs @ ts)
    = sax_parse F (expect_value (in_array [] # st)) (element_tokens xs @ ts)"
proof -
  from element_tokens_first [OF assms, of F st] obtain t toks
    where "element_tokens xs = t # toks"
      "parser_step F (after_begin_array st) t = parser_step F (expect_value (in_array [] # st)) t"
    by blast
  then show ?thesis by simp
qed

lemma member_tokens_first:
  "m \<noteq> [] \<Longrightarrow> \<exists>k ts. member_tokens m = t_value_string k # ts"
proof -
  assume "m \<noteq> []"
  then obtain k v ys where m: "m = (k, v) # ys" by (cases m) auto
  show ?thesis
    unfolding m by (cases ys) auto
qed

lemma sax_parse_first_member:
  assumes "m \<noteq> []"
  shows "sax_parse F (after_begin_object st) (member_tokens m @ ts)
    = sax_parse F (expect_key [] st) (member_tokens m @ ts)"
proof -
  from member_tokens_first [OF assms] obtain k toks where "member_tokens m = t_value_string k # toks"
    by blast
  then show ?thesis by simp
qed

lemma sax_parse_handle_end_array:
  "sax_parse F (handle_value v (in_array acc # st)) (t_end_array # ts)
    = sax_parse F (handle_value (Array (acc @ [v])) st) ts"
  by simp

lemma sax_parse_handle_separator_array:
  "sax_parse F (handle_value v (in_array acc # st)) (t_value_separator # ts)
    = sax_parse F (expect_value (in_array (acc @ [v]) # st)) ts"
  by simp

lemma sax_parse_key:
  "sax_parse F (expect_key acc st) (t_value_string k # t_name_separator # ts)
    = sax_parse F (expect_value (in_object acc k # st)) ts"
  by simp

lemma sax_parse_handle_end_object:
  "sax_parse F (handle_value v (in_object acc k # st)) (t_end_object # ts)
    = sax_parse F (handle_value (Object (map_assign k v acc)) st) ts"
  by simp

lemma sax_parse_handle_separator_object:
  "sax_parse F (handle_value v (in_object acc k # st)) (t_value_separator # ts)
    = sax_parse F (expect_key (map_assign k v acc) st) ts"
  by simp

lemma sax_parse_tokens:
  fixes F :: "'f float_ops"
  shows "reparsable F j \<Longrightarrow>
      sax_parse F (expect_value st) (tokens_of j @ ts) = sax_parse F (handle_value (reparsed j) st) ts"
    and "reparsable_elements F xs \<Longrightarrow> xs \<noteq> [] \<Longrightarrow>
      sax_parse F (expect_value (in_array acc # st)) (element_tokens xs @ t_end_array # ts)
        = sax_parse F (handle_value (Array (acc @ reparsed_elements xs)) st) ts"
    and "reparsable_members F m \<Longrightarrow> m \<noteq> [] \<Longrightarrow> sorted_wrt (<) (map fst (acc' @ m)) \<Longrightarrow>
      sax_parse F (expect_key acc' st) (member_tokens m @ t_end_object # ts)
        = sax_parse F (handle_value (Object (acc' @ reparsed_members m)) st) ts"
proof (induction j and xs and m arbitrary: st ts and acc st ts and acc' st ts
    rule: tokens_of_element_tokens_member_tokens.induct)
  case 1
  show ?case by simp
next
  case (2 b)
  show ?case by (cases b) simp_all
next
  case (3 i)
  show ?case by simp
next
  case (4 u)
  show ?case by simp
next
  case (5 x)
  then show ?case by (simp add: float_round_trip_def)
next
  case (6 s)
  show ?case by simp
next
  case (7 xs)
  show ?case
  proof (cases "xs = []")
    case True
    then show ?thesis by simp
  next
    case False
    have "sax_parse F (expect_value st) (tokens_of (Array xs) @ ts)
        = sax_parse F (after_begin_array st) (element_tokens xs @ t_end_array # ts)"
      by simp
    also have "\<dots> = sax_parse F (expect_value (in_array [] # st)) (element_tokens xs @ t_end_array # ts)"
      by (rule sax_parse_first_element [OF False])
    also have "\<dots> = sax_parse F (handle_value (Array ([] @ reparsed_elements xs)) st) ts"
      using 7 False by simp
    finally show ?thesis by simp
  qed
next
  case (8 m)
  show ?case
  proof (cases "m = []")
    case True
    then show ?thesis by simp
  next
    case False
    have "sax_parse F (expect_value st) (tokens_of (Object m) @ ts)
        = sax_parse F (after_begin_object st) (member_tokens m @ t_end_object # ts)"
      by simp
    also have "\<dots> = sax_parse F (expect_key [] st) (member_tokens m @ t_end_object # ts)"
      by (rule sax_parse_first_member [OF False])
    also have "\<dots> = sax_parse F (handle_value (Object ([] @ reparsed_members m)) st) ts"
      using 8 False by simp
    finally show ?thesis by simp
  qed
next
  case 9
  then show ?case by simp
next
  case (10 x)
  then have "sax_parse F (expect_value (in_array acc # st)) (tokens_of x @ t_end_array # ts)
      = sax_parse F (handle_value (reparsed x) (in_array acc # st)) (t_end_array # ts)"
    by simp
  then show ?case
    by (simp add: sax_parse_handle_end_array del: handle_value.simps)
next
  case (11 x y xs)
  from 11(3) have x: "reparsable F x" and r: "reparsable_elements F (y # xs)"
    by simp_all
  have "sax_parse F (expect_value (in_array acc # st))
        (element_tokens (x # y # xs) @ t_end_array # ts)
      = sax_parse F (handle_value (reparsed x) (in_array acc # st))
        (t_value_separator # element_tokens (y # xs) @ t_end_array # ts)"
    using 11(1) [OF x] by simp
  also have "\<dots> = sax_parse F (expect_value (in_array (acc @ [reparsed x]) # st))
        (element_tokens (y # xs) @ t_end_array # ts)"
    by (rule sax_parse_handle_separator_array)
  also have "\<dots> = sax_parse F (handle_value (Array ((acc @ [reparsed x]) @ reparsed_elements (y # xs))) st) ts"
    by (rule 11(2) [OF r]) simp
  finally show ?case by simp
next
  case 12
  then show ?case by simp
next
  case (13 k v)
  from 13(2) have v: "reparsable F v" by simp
  from 13(4) have a: "map_assign k (reparsed v) acc' = acc' @ [(k, reparsed v)]"
    by (intro map_assign_append) simp
  have "sax_parse F (expect_key acc' st) (member_tokens [(k, v)] @ t_end_object # ts)
      = sax_parse F (expect_value (in_object acc' k # st)) (tokens_of v @ t_end_object # ts)"
    by simp
  also have "\<dots> = sax_parse F (handle_value (reparsed v) (in_object acc' k # st)) (t_end_object # ts)"
    by (rule 13(1) [OF v])
  also have "\<dots> = sax_parse F (handle_value (Object (map_assign k (reparsed v) acc')) st) ts"
    by (rule sax_parse_handle_end_object)
  finally show ?case using a by simp
next
  case (14 k v kv m)
  from 14(3) have v: "reparsable F v" and r: "reparsable_members F (kv # m)"
    by simp_all
  from 14(5) have "sorted_wrt (<) (map fst acc' @ [k])"
    by (simp add: sorted_wrt_append)
  then have a: "map_assign k (reparsed v) acc' = acc' @ [(k, reparsed v)]"
    by (rule map_assign_append)
  from 14(5) have s: "sorted_wrt (<) (map fst ((acc' @ [(k, reparsed v)]) @ kv # m))"
    by simp
  have "sax_parse F (expect_key acc' st) (member_tokens ((k, v) # kv # m) @ t_end_object # ts)
      = sax_parse F (expect_value (in_object acc' k # st))
          (tokens_of v @ t_value_separator # member_tokens (kv # m) @ t_end_object # ts)"
    by simp
  also have "\<dots> = sax_parse F (handle_value (reparsed v) (in_object acc' k # st))
          (t_value_separator # member_tokens (kv # m) @ t_end_object # ts)"
    by (rule 14(1) [OF v])
  also have "\<dots> = sax_parse F (expect_key (map_assign k (reparsed v) acc') st)
          (member_tokens (kv # m) @ t_end_object # ts)"
    by (rule sax_parse_handle_separator_object)
  also have "\<dots> = sax_parse F (handle_value (Object ((acc' @ [(k, reparsed v)]) @ reparsed_members (kv # m))) st) ts"
    unfolding a by (rule 14(2) [OF r _ s]) simp
  finally show ?case by simp
qed

lemma tokens_of_not_empty: "\<exists>t ts. tokens_of j = t # ts \<and> t \<noteq> t_parse_error \<and> t \<noteq> t_end_of_input"
  by (cases j) auto

lemma scan_tokens_dump:
  assumes "dump F j = Inr s" "reparsable F j"
  shows "scan_tokens F s = tokens_of j @ [t_end_of_input]"
proof -
  have l: "lex F scan s = tokens_of j @ [t_end_of_input]"
    using lex_dump(1) [OF assms, of "[]"] by (simp add: lex.simps)
  obtain t ts where t: "tokens_of j = t # ts" "t \<noteq> t_parse_error" "t \<noteq> t_end_of_input"
    using tokens_of_not_empty by blast
  show ?thesis
  proof (cases s)
    case Nil
    with l t show ?thesis by (simp add: lex.simps)
  next
    case (Cons c cs)
    have "c \<noteq> CHR 0xEF"
    proof
      assume "c = CHR 0xEF"
      with Cons have "lex F scan s = [t_parse_error]"
        by (simp add: lex.simps is_whitespace_def is_digit_def)
      with l t show False by simp
    qed
    with Cons l show ?thesis
      by (simp add: scan_tokens_def)
  qed
qed

theorem parse_dump:
  assumes "dump F j = Inr s" "reparsable F j"
  shows "parse F s = Inr (reparsed j)"
proof -
  have "parse F s = sax_parse F (expect_value []) (tokens_of j @ [t_end_of_input])"
    by (simp add: parse_def scan_tokens_dump [OF assms])
  also have "\<dots> = sax_parse F (handle_value (reparsed j) []) [t_end_of_input]"
    by (rule sax_parse_tokens(1) [OF assms(2)])
  finally show ?thesis by simp
qed

lemma reparsable_members_iff: "reparsable_members F m \<longleftrightarrow> (\<forall>kv \<in> set m. reparsable F (snd kv))"
  by (induction m) auto

lemma set_map_assign: "set (map_assign k v m) \<subseteq> insert (k, v) (set m)"
  by (induction k v m rule: map_assign.induct) (auto split: if_splits)

lemma set_saved_entries:
  "set (saved_entries h vs m)
     \<subseteq> set m \<union> (\<lambda>a. (m_key (h a), to_json (h a) (m_value (h a)))) ` set vs"
proof (induction vs arbitrary: m)
  case Nil
  show ?case by simp
next
  case (Cons a vs)
  show ?case
    using Cons.IH [of "map_assign (m_key (h a)) (to_json (h a) (m_value (h a))) m"]
      set_map_assign [of "m_key (h a)" "to_json (h a) (m_value (h a))" m]
    by auto
qed

lemma map_find_reparsed_members:
  "map_find (reparsed_members m) k = map_option reparsed (map_find m k)"
  by (induction m) auto

section \<open>A text that begins with a brace\<close>

text \<open>When \<^verbatim>\<open>parse\<close> returns a value for a text whose first character is \<^verbatim>\<open>{\<close>, the
  value is an object.\<close>

lemma object_at_bottom_Cons: "st \<noteq> [] \<Longrightarrow> object_at_bottom (f # st) = object_at_bottom st"
  by (cases st) simp_all

lemma object_at_bottom_frame:
  "object_at_bottom (in_object m k # st) \<Longrightarrow> object_at_bottom (in_object m' k' # st)"
  "object_at_bottom (in_array xs # st) \<Longrightarrow> object_at_bottom (in_array xs' # st)"
  by (cases st; simp)+

lemma handle_value_object: "object_at_bottom st \<Longrightarrow> parsing_object (handle_value v st)"
proof (cases st)
  case Nil
  assume "object_at_bottom st"
  with Nil show ?thesis by simp
next
  case (Cons f st')
  assume "object_at_bottom st"
  with Cons show ?thesis
    by (cases f) (auto intro: object_at_bottom_frame)
qed

lemma value_token_object:
  "value_token F t st = Inr s' \<Longrightarrow> object_at_bottom st \<Longrightarrow> parsing_object s'"
  by (cases t) (auto simp add: handle_value_object split: if_splits)

lemma object_at_bottom_not_Nil: "object_at_bottom st \<Longrightarrow> st \<noteq> []"
  by auto

lemma parser_step_object:
  assumes "parser_step F s t = Inr s'" and "parsing_object s"
  shows "parsing_object s'"
proof (cases s)
  case (expect_value st)
  with assms show ?thesis
    by (simp add: value_token_object)
next
  case (after_begin_array st)
  with assms have b: "object_at_bottom st" by simp
  then have c: "object_at_bottom (in_array [] # st)"
    by (simp add: object_at_bottom_Cons object_at_bottom_not_Nil)
  show ?thesis
  proof (cases "t = t_end_array")
    case True
    with assms after_begin_array b show ?thesis
      by (auto simp add: handle_value_object)
  next
    case False
    then have "parser_step F (after_begin_array st) t = value_token F t (in_array [] # st)"
      by (cases t) simp_all
    with assms after_begin_array have "value_token F t (in_array [] # st) = Inr s'"
      by simp
    then show ?thesis
      using c by (rule value_token_object)
  qed
next
  case (after_begin_object st)
  with assms show ?thesis
    by (cases t; cases "st = []") (auto simp add: handle_value_object)
next
  case (expect_key m st)
  with assms show ?thesis
    by (cases t) auto
next
  case (expect_name_separator m k st)
  with assms show ?thesis
    by (cases t; cases "st = []") (auto simp add: object_at_bottom_Cons)
next
  case (after_value f st)
  show ?thesis
  proof (cases f)
    case (in_array xs)
    with assms after_value have b: "object_at_bottom (in_array xs # st)" by simp
    then have "st \<noteq> []" by (cases st) simp_all
    with b have "object_at_bottom st" by (simp add: object_at_bottom_Cons)
    with assms after_value in_array b show ?thesis
      by (cases t) (auto simp add: handle_value_object)
  next
    case (in_object m k)
    with assms after_value have b: "object_at_bottom (in_object m k # st)" by simp
    then have "st = [] \<or> object_at_bottom st"
      by (cases "st = []") (simp_all add: object_at_bottom_Cons)
    with assms after_value in_object show ?thesis
      by (cases t) (auto simp add: handle_value_object)
  qed
next
  case (finished v)
  with assms show ?thesis by simp
qed

lemma sax_parse_object:
  "sax_parse F s ts = Inr j \<Longrightarrow> parsing_object s \<Longrightarrow> is_object j"
proof (induction ts arbitrary: s)
  case Nil
  then show ?case by simp
next
  case (Cons t ts)
  show ?case
  proof (cases "\<exists>v. s = finished v")
    case True
    with Cons.prems show ?thesis
      by (cases t) auto
  next
    case False
    then have "sax_parse F s (t # ts)
        = (case parser_step F s t of Inl e \<Rightarrow> Inl e | Inr s' \<Rightarrow> sax_parse F s' ts)"
      by (cases s) simp_all
    with Cons.prems obtain s' where s': "parser_step F s t = Inr s'" "sax_parse F s' ts = Inr j"
      by (auto split: sum.splits)
    from s'(1) Cons.prems(2) have "parsing_object s'"
      by (rule parser_step_object)
    with s'(2) show ?thesis
      by (rule Cons.IH)
  qed
qed

lemma parse_begin_object: "parse F (CHR ''{'' # cs) = Inr j \<Longrightarrow> is_object j"
proof -
  assume p: "parse F (CHR ''{'' # cs) = Inr j"
  have "scan_tokens F (CHR ''{'' # cs) = t_begin_object # lex F scan cs"
    by (simp add: scan_tokens_def lex.simps is_whitespace_def)
  with p have "sax_parse F (after_begin_object []) (lex F scan cs) = Inr j"
    by (simp add: parse_def)
  then show ?thesis
    by (rule sax_parse_object) simp
qed

section \<open>The document that \<^verbatim>\<open>Config::set\<close> loads\<close>

lemma is_object_not_key_value: "is_object j \<Longrightarrow> \<not> is_key_value j"
  by (cases j) simp_all

lemma is_object_initializer_list: "is_object (initializer_list_json [j]) = is_key_value j"
  by (simp add: initializer_list_json_def)

lemma initializer_list_pair: "initializer_list_json [Array [String k, v]] = Object [(k, v)]"
  by (simp add: initializer_list_json_def)

lemma Config_set_parse_error: "parse F json = Inl e \<Longrightarrow> Config_set F this json h = Thrown e h"
  by (simp add: Config_set_def)

lemma Config_set_not_key_value:
  "parse F json = Inr j \<Longrightarrow> \<not> is_key_value j \<Longrightarrow> Config_set F this json h = Normal h"
  by (simp add: Config_set_def is_object_initializer_list)

lemma Config_set_object_text:
  "parse F json = Inr j \<Longrightarrow> is_object j \<Longrightarrow> Config_set F this json h = Normal h"
  by (simp add: Config_set_not_key_value is_object_not_key_value)

lemma Config_set_pair:
  "parse F json = Inr (Array [String k, v]) \<Longrightarrow>
   Config_set F this json h = load_all (Object [(k, v)]) (m_variables this) h"
  by (simp add: Config_set_def initializer_list_pair)

text \<open>The only texts that \<^verbatim>\<open>set\<close> loads are arrays of a string and a value: the text
  \<^verbatim>\<open>["volume",50]\<close> gives the variable \<^verbatim>\<open>volume\<close> the value 50.\<close>

lemma Config_set_pair_volume_50:
  \<open>Config_set no_floats (fst volume_muted) ''["volume",50]'' (snd volume_muted)
     = Normal ((snd volume_muted)(0 := int_variable no_floats ''volume'' 50))\<close>
proof -
  have "(snd volume_muted)(0 := int_variable no_floats ''volume'' 50,
        Suc 0 := bool_variable ''muted'' False)
      = (snd volume_muted)(0 := int_variable no_floats ''volume'' 50)"
    by (rule ext) (simp add: volume_muted_sel)
  then show ?thesis
    by (simp add: Config_set_pair [OF parse_pair_volume_50] volume_muted_sel
        ConfigVariable_t_load_def int_variable_def bool_variable_def)
qed

lemma dump_Object_text: "dump F (Object m) = Inr r \<Longrightarrow> \<exists>cs. r = CHR ''{'' # cs"
  by (auto split: sum.splits)

lemma Config_get_text:
  assumes "Config_get F this h = Inr result"
  shows "result = ''null'' \<or> (\<exists>cs. result = CHR ''{'' # cs)"
proof (cases "m_variables this = []")
  case True
  with assms show ?thesis
    by (simp add: Config_get_def get_document_def)
next
  case False
  then have "get_document this h = Inr (Object (saved_entries h (m_variables this) []))"
    by (simp add: get_document_def save_all_Null)
  with assms have "dump F (Object (saved_entries h (m_variables this) [])) = Inr result"
    by (simp add: Config_get_def)
  then show ?thesis
    using dump_Object_text by blast
qed

lemma parse_null: "parse F ''null'' = Inr Null"
  by (simp add: lex_eval)

lemma Config_set_get_store:
  assumes "Config_get F this h = Inr result"
  shows "store_after (Config_set F this result h) = h"
proof (cases "parse F result")
  case (Inl e)
  then show ?thesis
    by (simp add: Config_set_parse_error)
next
  case (Inr j)
  have "\<not> is_key_value j"
  proof (cases "result = ''null''")
    case True
    with Inr show ?thesis by (simp add: parse_null)
  next
    case False
    with Config_get_text [OF assms] obtain cs where "result = CHR ''{'' # cs" by blast
    with Inr have "is_object j" by (simp add: parse_begin_object)
    then show ?thesis by (rule is_object_not_key_value)
  qed
  with Inr show ?thesis
    by (simp add: Config_set_not_key_value)
qed

lemma get_document_reparsable:
  assumes "\<forall>a \<in> set (m_variables this). reparsable F (to_json (h a) (m_value (h a)))"
    and "get_document this h = Inr doc"
  shows "reparsable F doc"
proof (cases "m_variables this = []")
  case True
  with assms(2) show ?thesis
    by (simp add: get_document_def)
next
  case False
  let ?m = "saved_entries h (m_variables this) []"
  have doc: "doc = Object ?m"
    using False assms(2) by (simp add: get_document_def save_all_Null)
  have "\<forall>kv \<in> set ?m. reparsable F (snd kv)"
    using set_saved_entries [of h "m_variables this" "[]"] assms(1) by auto
  moreover have "sorted_wrt (<) (map fst ?m)"
    by (rule saved_entries_sorted) simp
  ultimately show ?thesis
    by (simp add: doc reparsable_members_iff)
qed

lemma get_document_not_key_value: "get_document this h = Inr doc \<Longrightarrow> \<not> is_key_value (reparsed doc)"
  by (cases "m_variables this = []") (auto simp add: get_document_def save_all_Null)

section \<open>The claims\<close>

text \<open>
  Claim C1, as amended. \<^verbatim>\<open>set\<close> on a text that the parser accepts and whose top level is
  neither an object nor an array of a string and a value (such as \<^verbatim>\<open>[1,2,3]\<close>) returns
  normally and leaves every variable as it was. On a text that the parser rejects (such
  as \<^verbatim>\<open>not json\<close>) it leaves every variable as it was too, but the exception of the
  parser leaves \<^verbatim>\<open>set\<close>.
\<close>

theorem C1_set_rejected_or_not_object:
  "(parse F json = Inl e \<longrightarrow> Config_set F this json h = Thrown e h) \<and>
   (parse F json = Inr j \<and> \<not> is_object j \<and> \<not> is_key_value j
      \<longrightarrow> Config_set F this json h = Normal h)"
  by (simp add: Config_set_def is_object_initializer_list)

theorem C1_set_rejected_or_not_object_witness:
  \<open>parse no_floats ''not json'' = Inl parse_error \<and>
   Config_set no_floats (fst volume_muted) ''not json'' (snd volume_muted)
     = Thrown parse_error (snd volume_muted) \<and>
   parse no_floats ''[1,2,3]''
     = Inr (Array [Number_unsigned 1, Number_unsigned 2, Number_unsigned 3]) \<and>
   \<not> is_object (Array [Number_unsigned 1, Number_unsigned 2, Number_unsigned 3 :: unit json]) \<and>
   \<not> is_key_value (Array [Number_unsigned 1, Number_unsigned 2, Number_unsigned 3 :: unit json]) \<and>
   Config_set no_floats (fst volume_muted) ''[1,2,3]'' (snd volume_muted)
     = Normal (snd volume_muted)\<close>
  using C1_set_rejected_or_not_object [where F = no_floats and json = "''not json''"
      and e = parse_error and this = "fst volume_muted" and h = "snd volume_muted"]
    C1_set_rejected_or_not_object [where F = no_floats and json = "''[1,2,3]''"
      and j = "Array [Number_unsigned 1, Number_unsigned 2, Number_unsigned 3]"
      and this = "fst volume_muted" and h = "snd volume_muted"]
  by (simp add: parse_not_json parse_array_123)

text \<open>
  Claim C1 as it was stated fails: on the text \<^verbatim>\<open>not json\<close> an exception leaves \<^verbatim>\<open>set\<close>.
\<close>

theorem C1_set_malformed_throws:
  \<open>Config_set no_floats (fst volume_muted) ''not json'' (snd volume_muted)
     = Thrown parse_error (snd volume_muted)\<close>
  by (simp add: Config_set_def parse_not_json)

text \<open>
  Claim C2. When \<^verbatim>\<open>get\<close> returns a text, \<^verbatim>\<open>set\<close> on that text leaves every variable
  as it was, whether it returns or throws. It returns normally when the JSON form of
  the value of every registered variable is reparsable. (The text of \<^verbatim>\<open>get\<close> is \<^verbatim>\<open>null\<close>
  or begins with a brace, so the parser returns null or an object for it; \<^verbatim>\<open>set\<close> makes
  an array around that value and returns at the test \<^verbatim>\<open>is_object()\<close>.)
\<close>

theorem C2_set_get_round_trip:
  "Config_get F this h = Inr result \<longrightarrow>
     store_after (Config_set F this result h) = h \<and>
     ((\<forall>a \<in> set (m_variables this). reparsable F (to_json (h a) (m_value (h a))))
        \<longrightarrow> Config_set F this result h = Normal h)"
proof (intro impI conjI)
  assume g: "Config_get F this h = Inr result"
  then show "store_after (Config_set F this result h) = h"
    by (rule Config_set_get_store)
next
  assume g: "Config_get F this h = Inr result"
    and v: "\<forall>a \<in> set (m_variables this). reparsable F (to_json (h a) (m_value (h a)))"
  obtain doc where doc: "get_document this h = Inr doc"
    using get_document_entries by blast
  with g have "dump F doc = Inr result"
    by (simp add: Config_get_def)
  moreover have "reparsable F doc"
    using v doc by (rule get_document_reparsable)
  ultimately have "parse F result = Inr (reparsed doc)"
    by (rule parse_dump)
  moreover have "\<not> is_key_value (reparsed doc)"
    using doc by (rule get_document_not_key_value)
  ultimately show "Config_set F this result h = Normal h"
    by (rule Config_set_not_key_value)
qed

theorem C2_set_get_round_trip_witness:
  \<open>Config_get no_floats (fst volume_muted) (snd volume_muted) = Inr ''{"muted":false,"volume":80}'' \<and>
   store_after
     (Config_set no_floats (fst volume_muted) ''{"muted":false,"volume":80}'' (snd volume_muted))
     = snd volume_muted \<and>
   m_variables (fst volume_muted) = [0, 1] \<and>
   reparsable no_floats (to_json (snd volume_muted 0) (m_value (snd volume_muted 0))) \<and>
   reparsable no_floats (to_json (snd volume_muted 1) (m_value (snd volume_muted 1))) \<and>
   Config_set no_floats (fst volume_muted) ''{"muted":false,"volume":80}'' (snd volume_muted)
     = Normal (snd volume_muted)\<close>
proof -
  have v: "\<forall>a \<in> set (m_variables (fst volume_muted)).
      reparsable no_floats (to_json (snd volume_muted a) (m_value (snd volume_muted a)))"
    by (simp add: volume_muted_sel int_variable_def bool_variable_def)
  from C2_set_get_round_trip [where F = no_floats and this = "fst volume_muted"
      and h = "snd volume_muted" and result = \<open>''{"muted":false,"volume":80}''\<close>]
    get_volume_muted v
  have \<open>Config_set no_floats (fst volume_muted) ''{"muted":false,"volume":80}'' (snd volume_muted)
      = Normal (snd volume_muted)\<close>
    by blast
  with get_volume_muted show ?thesis
    by (simp add: volume_muted_sel int_variable_def bool_variable_def)
qed

text \<open>
  Claim C3, as amended. The text that \<^verbatim>\<open>get\<close> returns for a registry that is not empty
  is an object whose members stand in ascending order of their keys (keys compared as
  byte strings), whatever the order of registration: the text is \<^verbatim>\<open>{\<close>, the members
  separated by commas, and \<^verbatim>\<open>}\<close>, and the members begin, one after the other, with
  the quoted keys of the registered variables taken in ascending order.
\<close>

theorem C3_keys_in_key_order:
  "Config_get F this h = Inr result \<and> m_variables this \<noteq> [] \<longrightarrow>
     (\<exists>ts. result = CHR ''{'' # separated ts @ ''}'' \<and>
        list_all2 (\<lambda>k t. \<exists>q r. dump_string k = Inr q \<and> t = q @ CHR '':'' # r)
          (sorted_list_of_set ((\<lambda>a. m_key (h a)) ` set (m_variables this))) ts)"
proof
  assume a: "Config_get F this h = Inr result \<and> m_variables this \<noteq> []"
  let ?m = "saved_entries h (m_variables this) []"
  have doc: "get_document this h = Inr (Object ?m)"
    using a by (simp add: get_document_def save_all_Null)
  with a obtain r where r: "dump_members F ?m = Inr r" and t_eq: "result = CHR ''{'' # r @ ''}''"
    by (auto simp add: Config_get_def split: sum.splits)
  from dump_members_text [OF r] obtain ts
    where ts: "list_all2 (member_text F) ?m ts" and sep: "r = separated ts"
    by blast
  have "list_all2 (\<lambda>k t. \<exists>q r. dump_string k = Inr q \<and> t = q @ CHR '':'' # r) (map fst ?m) ts"
    unfolding list_all2_map1
    by (rule list_all2_mono [OF ts]) (auto simp add: member_text_def)
  then show "\<exists>ts. result = CHR ''{'' # separated ts @ ''}'' \<and>
        list_all2 (\<lambda>k t. \<exists>q r. dump_string k = Inr q \<and> t = q @ CHR '':'' # r)
          (sorted_list_of_set ((\<lambda>a. m_key (h a)) ` set (m_variables this))) ts"
    using t_eq sep by (auto simp add: saved_entries_keys_list)
qed

theorem C3_keys_in_key_order_witness:
  \<open>Config_get no_floats (fst volume_muted) (snd volume_muted) = Inr ''{"muted":false,"volume":80}'' \<and>
   m_variables (fst volume_muted) \<noteq> [] \<and>
   (\<exists>ts. ''{"muted":false,"volume":80}'' = CHR ''{'' # separated ts @ ''}'' \<and>
      list_all2 (\<lambda>k t. \<exists>q r. dump_string k = Inr q \<and> t = q @ CHR '':'' # r)
        [''muted'', ''volume''] ts)\<close>
  using C3_keys_in_key_order [where F = no_floats and this = "fst volume_muted"
      and h = "snd volume_muted" and result = \<open>''{"muted":false,"volume":80}''\<close>,
      unfolded volume_muted_keys]
  by (simp add: get_volume_muted volume_muted_sel)

text \<open>
  Claim C3 as it was stated fails: \<^verbatim>\<open>volume\<close> is registered before \<^verbatim>\<open>muted\<close>, and the
  text of \<^verbatim>\<open>get\<close> has \<^verbatim>\<open>muted\<close> first.
\<close>

theorem C3_volume_muted_text:
  \<open>m_variables (fst volume_muted) = [0, 1] \<and>
   m_key (snd volume_muted 0) = ''volume'' \<and>
   m_key (snd volume_muted 1) = ''muted'' \<and>
   Config_get no_floats (fst volume_muted) (snd volume_muted) = Inr ''{"muted":false,"volume":80}''\<close>
  by (simp add: get_volume_muted volume_muted_sel int_variable_def bool_variable_def)

text \<open>
  Claim C4. When the document has an entry at the key of a variable and the entry does
  not convert to the type of the variable, \<^verbatim>\<open>load\<close> of the variable throws the
  exception of the conversion. The loop of \<^verbatim>\<open>set\<close> over a registry that holds the
  variable throws on such a document, and so does \<^verbatim>\<open>set\<close> whenever the document that it
  builds from its text is such a document.
\<close>

theorem C4_type_mismatch_throws:
  "(json_find object (m_key x) = Some j \<and> from_json x j = Inl e
      \<longrightarrow> ConfigVariable_t_load x object = Inl e) \<and>
   (a \<in> set vs \<and> json_find object (m_key (h a)) = Some j \<and> from_json (h a) j = Inl e
      \<longrightarrow> (\<exists>e' h'. load_all object vs h = Thrown e' h')) \<and>
   (parse F json = Inr parsed \<and> a \<in> set (m_variables this) \<and>
    json_find (initializer_list_json [parsed]) (m_key (h a)) = Some j \<and> from_json (h a) j = Inl e
      \<longrightarrow> (\<exists>e' h'. Config_set F this json h = Thrown e' h'))"
proof (intro conjI impI)
  assume "json_find object (m_key x) = Some j \<and> from_json x j = Inl e"
  then show "ConfigVariable_t_load x object = Inl e"
    by (simp add: load_not_convertible)
next
  assume a: "a \<in> set vs \<and> json_find object (m_key (h a)) = Some j \<and> from_json (h a) j = Inl e"
  then have "\<not> convertible (h a) object"
    using not_convertible by blast
  with a show "\<exists>e' h'. load_all object vs h = Thrown e' h'"
    by (intro load_all_throws [of a]) simp_all
next
  let ?object = "initializer_list_json [parsed]"
  assume a: "parse F json = Inr parsed \<and> a \<in> set (m_variables this) \<and>
    json_find ?object (m_key (h a)) = Some j \<and> from_json (h a) j = Inl e"
  then have "is_object ?object" "\<not> convertible (h a) ?object"
    using json_find_is_object not_convertible by blast+
  moreover from a \<open>\<not> convertible (h a) ?object\<close>
  have "\<exists>e' h'. load_all ?object (m_variables this) h = Thrown e' h'"
    by (intro load_all_throws [of a]) simp_all
  ultimately show "\<exists>e' h'. Config_set F this json h = Thrown e' h'"
    using a by (simp add: Config_set_def)
qed

theorem C4_type_mismatch_throws_witness:
  \<open>json_find (Object [(''volume'', String ''x'')]) (m_key (int_variable no_floats ''volume'' 80))
     = Some (String ''x'') \<and>
   from_json (int_variable no_floats ''volume'' 80) (String ''x'') = Inl type_error \<and>
   ConfigVariable_t_load (int_variable no_floats ''volume'' 80) (Object [(''volume'', String ''x'')])
     = Inl type_error \<and>
   0 \<in> set (m_variables (fst volume_muted)) \<and>
   snd volume_muted 0 = int_variable no_floats ''volume'' 80 \<and>
   (\<exists>e' h'. load_all (Object [(''volume'', String ''x'')]) (m_variables (fst volume_muted))
      (snd volume_muted) = Thrown e' h') \<and>
   parse no_floats ''["volume","x"]'' = Inr (Array [String ''volume'', String ''x'']) \<and>
   initializer_list_json [Array [String ''volume'', String ''x''] :: unit json]
     = Object [(''volume'', String ''x'')] \<and>
   (\<exists>e' h'. Config_set no_floats (fst volume_muted) ''["volume","x"]'' (snd volume_muted)
      = Thrown e' h')\<close>
  using C4_type_mismatch_throws [where object = "Object [(''volume'', String ''x'')]"
      and x = "int_variable no_floats ''volume'' 80" and j = "String ''x''" and e = type_error
      and F = no_floats and json = \<open>''["volume","x"]''\<close> and a = 0 and this = "fst volume_muted"
      and vs = "m_variables (fst volume_muted)"
      and parsed = "Array [String ''volume'', String ''x'']" and h = "snd volume_muted"]
  by (simp add: parse_pair_volume_x initializer_list_pair volume_muted_sel int_variable_def)

text \<open>
  Claim C5 fails on the code. The variable \<^verbatim>\<open>volume\<close> is registered with the value 80,
  and the text is the object \<^verbatim>\<open>{"volume":50}\<close>, whose only key is registered. The parser
  returns the object; the declaration of \<^verbatim>\<open>object\<close> in \<^verbatim>\<open>set\<close> makes an array with the
  parsed object as its only element; the test \<^verbatim>\<open>is_object()\<close> fails, and \<^verbatim>\<open>set\<close> returns
  with \<^verbatim>\<open>volume\<close> still 80. The loop of \<^verbatim>\<open>set\<close>, run on the parsed object itself, assigns
  50.
\<close>

theorem C5_object_text_not_loaded:
  \<open>parse no_floats ''{"volume":50}'' = Inr (Object [(''volume'', Number_unsigned 50)]) \<and>
   initializer_list_json [Object [(''volume'', Number_unsigned 50)] :: unit json]
     = Array [Object [(''volume'', Number_unsigned 50)]] \<and>
   m_value (snd volume_muted 0) = int_value 80 \<and>
   Config_set no_floats (fst volume_muted) ''{"volume":50}'' (snd volume_muted)
     = Normal (snd volume_muted) \<and>
   load_all (Object [(''volume'', Number_unsigned 50)]) (m_variables (fst volume_muted))
     (snd volume_muted)
     = Normal ((snd volume_muted)(0 := int_variable no_floats ''volume'' 50))\<close>
proof -
  have "(snd volume_muted)(0 := int_variable no_floats ''volume'' 50,
        Suc 0 := bool_variable ''muted'' False)
      = (snd volume_muted)(0 := int_variable no_floats ''volume'' 50)"
    by (rule ext) (simp add: volume_muted_sel)
  then show ?thesis
    by (simp add: Config_set_def parse_volume_50 initializer_list_json_def volume_muted_sel
        ConfigVariable_t_load_def int_variable_def bool_variable_def)
qed

text \<open>
  Claim C6, as amended. When \<^verbatim>\<open>create_directory\<close> returns and the file then does not
  open, \<^verbatim>\<open>load\<close> returns normally and every variable is as it was. When
  \<^verbatim>\<open>create_directory\<close> throws, its exception leaves \<^verbatim>\<open>load\<close> before the file is opened;
  every variable is as it was.
\<close>

theorem C6_load_file_not_opened:
  "(create_directory FS w (m_path this) = Inr w' \<and>
    open_ifstream FS w' (path_append FS (m_path this) file_name) = None
      \<longrightarrow> Config_load FS F this file_name (w, h) = Normal (w', h)) \<and>
   (create_directory FS w (m_path this) = Inl e
      \<longrightarrow> Config_load FS F this file_name (w, h) = Thrown e (w, h))"
  by (simp add: Config_load_def)

theorem C6_load_file_not_opened_witness:
  "create_directory empty_directory () (m_path (fst volume_muted)) = Inr () \<and>
   open_ifstream empty_directory ()
     (path_append empty_directory (m_path (fst volume_muted)) ''nonexistent.json'') = None \<and>
   Config_load empty_directory no_floats (fst volume_muted) ''nonexistent.json''
     ((), snd volume_muted) = Normal ((), snd volume_muted) \<and>
   create_directory missing_parent () (m_path (fst volume_muted)) = Inl filesystem_error \<and>
   Config_load missing_parent no_floats (fst volume_muted) ''nonexistent.json''
     ((), snd volume_muted) = Thrown filesystem_error ((), snd volume_muted)"
  using C6_load_file_not_opened [where FS = empty_directory and w = "()" and w' = "()"
      and this = "fst volume_muted" and file_name = "''nonexistent.json''" and F = no_floats
      and h = "snd volume_muted"]
    C6_load_file_not_opened [where FS = missing_parent and w = "()" and e = filesystem_error
      and this = "fst volume_muted" and file_name = "''nonexistent.json''" and F = no_floats
      and h = "snd volume_muted"]
  by (simp add: empty_directory_def missing_parent_def)

text \<open>
  Claim C6 as it was stated fails: the file cannot be opened, and an exception leaves
  \<^verbatim>\<open>load\<close>.
\<close>

theorem C6_load_throws_filesystem_error:
  "open_ifstream missing_parent ()
     (path_append missing_parent (m_path (fst volume_muted)) ''nonexistent.json'') = None \<and>
   Config_load missing_parent no_floats (fst volume_muted) ''nonexistent.json''
     ((), snd volume_muted) = Thrown filesystem_error ((), snd volume_muted)"
  by (simp add: Config_load_def missing_parent_def)

text \<open>
  Claim C7. When the keys of the registered variables are pairwise distinct, the
  document that \<^verbatim>\<open>get\<close> builds and serialises has as many entries as there are
  registered variables, no key twice, exactly the registered keys, and at the key of
  each variable the JSON form of its value.
\<close>

theorem C7_one_entry_per_variable:
  assumes "distinct (map (\<lambda>a. m_key (h a)) (m_variables this))"
  shows "\<exists>doc. get_document this h = Inr doc \<and> Config_get F this h = dump F doc \<and>
     length (entries doc) = length (m_variables this) \<and>
     distinct (map fst (entries doc)) \<and>
     set (map fst (entries doc)) = (\<lambda>a. m_key (h a)) ` set (m_variables this) \<and>
     (\<forall>a \<in> set (m_variables this).
        map_find (entries doc) (m_key (h a)) = Some (to_json (h a) (m_value (h a))))"
proof -
  let ?vs = "m_variables this"
  obtain doc where doc: "get_document this h = Inr doc" and e: "entries doc = saved_entries h ?vs []"
    using get_document_entries by blast
  have "sorted_wrt (<) (map fst (entries doc))"
    unfolding e by (rule saved_entries_sorted) simp
  then have d: "distinct (map fst (entries doc))"
    by (simp add: strict_sorted_iff)
  have s: "set (map fst (entries doc)) = (\<lambda>a. m_key (h a)) ` set ?vs"
    unfolding e by (simp add: saved_entries_keys)
  have "length (entries doc) = card (set (map fst (entries doc)))"
    using distinct_card [OF d] by simp
  also have "\<dots> = card (set (map (\<lambda>a. m_key (h a)) ?vs))"
    using s by simp
  also have "\<dots> = length ?vs"
    using distinct_card [OF assms] by simp
  finally have l: "length (entries doc) = length ?vs" .
  have f: "\<forall>a \<in> set ?vs. map_find (entries doc) (m_key (h a)) = Some (to_json (h a) (m_value (h a)))"
    unfolding e using assms by (simp add: saved_entries_find)
  show ?thesis
    using doc d s l f by (simp add: Config_get_def)
qed

theorem C7_one_entry_per_variable_witness:
  "distinct (map (\<lambda>a. m_key (snd volume_muted a)) (m_variables (fst volume_muted))) \<and>
   (\<exists>doc. get_document (fst volume_muted) (snd volume_muted) = Inr doc \<and>
      doc = Object [(''muted'', Boolean False), (''volume'', Number_integer 80)] \<and>
      length (entries doc) = 2 \<and>
      set (map fst (entries doc)) = {''volume'', ''muted''})"
proof -
  have d: "distinct (map (\<lambda>a. m_key (snd volume_muted a)) (m_variables (fst volume_muted)))"
    by (simp add: volume_muted_sel int_variable_def bool_variable_def)
  from C7_one_entry_per_variable [OF d, of no_floats]
  show ?thesis
    using d by (auto simp add: get_document_volume_muted volume_muted_sel)
qed

text \<open>
  Claim C8. The constructor with a key and a value appends the address of the new
  variable to the registry of \<^verbatim>\<open>instance\<close>, which grows by one, and the object at that
  address has the key and the value given. The defaulted constructor leaves \<^verbatim>\<open>instance\<close>
  as it was.
\<close>

theorem C8_registration:
  "m_variables (fst (ConfigVariable_t_ctor this tj fj key value (instance, h)))
     = m_variables instance @ [this] \<and>
   length (m_variables (fst (ConfigVariable_t_ctor this tj fj key value (instance, h))))
     = length (m_variables instance) + 1 \<and>
   snd (ConfigVariable_t_ctor this tj fj key value (instance, h)) this
     = \<lparr>m_key = key, m_value = value, to_json = tj, from_json = fj\<rparr> \<and>
   fst (ConfigVariable_t_default_ctor this tj fj v0 (instance, h)) = instance"
  by (simp add: ConfigVariable_t_ctor_def ConfigVariable_t_default_ctor_def add_variable_def)

text \<open>
  Claim C9 fails on the code. The variables \<^verbatim>\<open>volume\<close> (an \<^verbatim>\<open>int\<close>, 80) and \<^verbatim>\<open>muted\<close> (a
  \<^verbatim>\<open>bool\<close>, false) are registered in this order, and the text is the object
  \<^verbatim>\<open>{"volume":7,"muted":3}\<close>, whose entry for the second variable does not convert. The
  loop of \<^verbatim>\<open>set\<close>, run on the parsed object itself, assigns 7 to \<^verbatim>\<open>volume\<close> and then throws.
  But \<^verbatim>\<open>set\<close> makes an array with the parsed object as its only element, the test
  \<^verbatim>\<open>is_object()\<close> fails, and \<^verbatim>\<open>set\<close> returns normally with both variables as they were.
\<close>

theorem C9_mismatch_in_object_text_not_raised:
  \<open>parse no_floats ''{"volume":7,"muted":3}''
     = Inr (Object [(''muted'', Number_unsigned 3), (''volume'', Number_unsigned 7)]) \<and>
   m_variables (fst volume_muted) = [0, 1] \<and>
   Config_set no_floats (fst volume_muted) ''{"volume":7,"muted":3}'' (snd volume_muted)
     = Normal (snd volume_muted) \<and>
   load_all (Object [(''muted'', Number_unsigned 3), (''volume'', Number_unsigned 7)])
     (m_variables (fst volume_muted)) (snd volume_muted)
     = Thrown type_error ((snd volume_muted)(0 := int_variable no_floats ''volume'' 7))\<close>
  by (simp add: Config_set_def parse_volume_7_muted_3 initializer_list_json_def volume_muted_sel
      ConfigVariable_t_load_def int_variable_def bool_variable_def)

text \<open>
  Claim C10. With no variable registered, \<^verbatim>\<open>get\<close> returns the text \<^verbatim>\<open>null\<close> and not
  \<^verbatim>\<open>{}\<close>. \<^verbatim>\<open>set\<close> on that text parses it to the null value, which is not an object, and
  returns at the test \<^verbatim>\<open>is_object()\<close> without a change.
\<close>

theorem C10_get_without_variables:
  \<open>Config_get F (this\<lparr>m_variables := []\<rparr>) h = Inr ''null'' \<and>
   Config_get F (this\<lparr>m_variables := []\<rparr>) h \<noteq> Inr ''{}'' \<and>
   parse F ''null'' = Inr Null \<and>
   is_object (Null :: 'f json) = False \<and>
   Config_set F (this\<lparr>m_variables := []\<rparr>) ''null'' h = Normal h\<close>
  by (simp add: Config_get_def get_document_def Config_set_def initializer_list_json_def lex_eval)

end
